theory Spec2Isabelle
  imports Complex_Main
begin

section \<open>Python strings and slices\<close>

text \<open>
  A Python \<open>str\<close> is modelled as a \<open>string\<close>: a list of characters, one per code
  point, restricted to the code points below 256. \<open>len\<close> is \<open>length\<close>. Sizes and
  positions are Python ints, hence \<open>int\<close>: a negative slice bound counts from the end,
  as in Python.
\<close>

abbreviation LF :: char where "LF \<equiv> CHR 0x0A"
abbreviation CR :: char where "CR \<equiv> CHR 0x0D"
abbreviation TAB :: char where "TAB \<equiv> CHR 0x09"

text \<open>\<open>str.isspace\<close> on one character, which is also the class \<open>\s\<close> of \<open>re\<close>.\<close>

definition is_space :: "char \<Rightarrow> bool" where
  "is_space c = (of_char c \<in> {9, 10, 11, 12, 13, 28, 29, 30, 31, 32, 133, 160 :: nat})"

definition is_digit :: "char \<Rightarrow> bool" where
  "is_digit c = (48 \<le> (of_char c :: nat) \<and> (of_char c :: nat) \<le> 57)"

definition is_upper_AZ :: "char \<Rightarrow> bool" where
  "is_upper_AZ c = (65 \<le> (of_char c :: nat) \<and> (of_char c :: nat) \<le> 90)"

definition is_lower_az :: "char \<Rightarrow> bool" where
  "is_lower_az c = (97 \<le> (of_char c :: nat) \<and> (of_char c :: nat) \<le> 122)"

definition lstrip :: "string \<Rightarrow> string" where
  "lstrip s = dropWhile is_space s"

definition rstrip :: "string \<Rightarrow> string" where
  "rstrip s = rev (dropWhile is_space (rev s))"

definition strip :: "string \<Rightarrow> string" where
  "strip s = rstrip (lstrip s)"

text \<open>A slice bound \<open>i\<close> of a sequence of length \<open>n\<close>, clamped as Python clamps it.\<close>

definition py_index :: "nat \<Rightarrow> int \<Rightarrow> nat" where
  "py_index n i = (if i < 0 then nat (max 0 (int n + i)) else min n (nat i))"

text \<open>\<open>xs[a:b]\<close>, \<open>xs[a:]\<close> and \<open>xs[:b]\<close>.\<close>

definition py_slice :: "'a list \<Rightarrow> int \<Rightarrow> int \<Rightarrow> 'a list" where
  "py_slice xs a b =
     (let lo = py_index (length xs) a; hi = py_index (length xs) b
      in take (hi - lo) (drop lo xs))"

definition py_slice_from :: "'a list \<Rightarrow> int \<Rightarrow> 'a list" where
  "py_slice_from xs a = drop (py_index (length xs) a) xs"

definition py_slice_to :: "'a list \<Rightarrow> int \<Rightarrow> 'a list" where
  "py_slice_to xs b = take (py_index (length xs) b) xs"

text \<open>\<open>sub\<close> occurs in \<open>s\<close> at position \<open>i\<close>.\<close>

definition occurs_at :: "string \<Rightarrow> string \<Rightarrow> nat \<Rightarrow> bool" where
  "occurs_at s sub i = (i + length sub \<le> length s \<and> take (length sub) (drop i s) = sub)"

text \<open>\<open>s.rfind(sub)\<close>: the highest position at which \<open>sub\<close> occurs, or \<open>-1\<close>.\<close>

definition rfind :: "string \<Rightarrow> string \<Rightarrow> int" where
  "rfind s sub =
     (case filter (occurs_at s sub) (rev [0..<Suc (length s)]) of
        [] \<Rightarrow> - 1
      | i # _ \<Rightarrow> int i)"

text \<open>\<open>s.split("\n")\<close>: the lines of \<open>s\<close>, always at least one.\<close>

fun split_lines :: "string \<Rightarrow> string list" where
  "split_lines [] = [[]]"
| "split_lines (c # cs) =
     (if c = LF then [] # split_lines cs
      else (case split_lines cs of
              [] \<Rightarrow> [[c]]
            | l # ls \<Rightarrow> (c # l) # ls))"

text \<open>\<open>sep.join(xs)\<close>.\<close>

fun join :: "string \<Rightarrow> string list \<Rightarrow> string" where
  "join sep [] = []"
| "join sep [x] = x"
| "join sep (x # y # ys) = x @ sep @ join sep (y # ys)"

section \<open>Overlap helpers (pdf\_processing.py)\<close>

text \<open>
  \<open>re.search(r"[.!?]\s+[A-Z]", area)\<close>. \<open>match_sentence_at\<close> tries the pattern at the
  head of its argument and returns the matched text \<open>m.group(0)\<close>: the whitespace run is
  taken greedily, and no shorter run can be followed by a capital letter.
  \<open>search_sentence\<close> returns the text of the leftmost match.
\<close>

definition is_sentence_end :: "char \<Rightarrow> bool" where
  "is_sentence_end c = (c = CHR ''.'' \<or> c = CHR ''!'' \<or> c = CHR ''?'')"

fun match_sentence_at :: "string \<Rightarrow> string option" where
  "match_sentence_at [] = None"
| "match_sentence_at (c # rest) =
     (if is_sentence_end c \<and> takeWhile is_space rest \<noteq> [] then
        (case dropWhile is_space rest of
           [] \<Rightarrow> None
         | u # _ \<Rightarrow> if is_upper_AZ u then Some (c # takeWhile is_space rest @ [u]) else None)
      else None)"

fun search_sentence :: "string \<Rightarrow> string option" where
  "search_sentence [] = None"
| "search_sentence (c # cs) =
     (case match_sentence_at (c # cs) of
        Some g \<Rightarrow> Some g
      | None \<Rightarrow> search_sentence cs)"

text \<open>
  \<open>int(overlap_size * 1.5)\<close>: the product is exact in double precision for every size
  below \<open>2^52\<close>, and \<open>int\<close> truncates towards zero.
\<close>

definition int_times_1_5 :: "int \<Rightarrow> int" where
  "int_times_1_5 n = (if 0 \<le> n then (3 * n) div 2 else - ((3 * (- n)) div 2))"

definition get_overlap_text :: "string \<Rightarrow> int \<Rightarrow> string" where
  "get_overlap_text text overlap_size =
     (if int (length text) \<le> overlap_size then text
      else
        (let area = py_slice_from text (- int_times_1_5 overlap_size) in
         case search_sentence area of
           Some g \<Rightarrow> strip (py_slice_from text (rfind text g + 1))
         | None \<Rightarrow> py_slice_from text (- overlap_size)))"

section \<open>Splitting an oversize section\<close>

text \<open>
  The end of the fragment that starts at \<open>start\<close>: the body of the loop of
  \<open>_split_large_section\<close> up to the slice.
\<close>

definition split_end :: "string \<Rightarrow> int \<Rightarrow> int \<Rightarrow> int \<Rightarrow> int" where
  "split_end section chunk_size overlap start =
     (let end = start + chunk_size in
      if end < int (length section) then
        (let search_area = py_slice section (start + chunk_size - overlap) (end + overlap);
             candidates = filter (\<lambda>c. c \<noteq> - 1)
               [rfind search_area [LF, LF], rfind search_area [LF],
                rfind search_area ''. '', rfind search_area '', '']
         in if candidates \<noteq> [] then start + chunk_size - overlap + Max (set candidates)
            else end)
      else end)"

definition split_append :: "string list \<Rightarrow> string \<Rightarrow> string list" where
  "split_append chunks chunk = (if chunk \<noteq> [] then chunks @ [chunk] else chunks)"

text \<open>
  The \<open>while\<close> loop. It need not end (the start position may fail to advance), so it
  is a partial function: \<open>None\<close> is the loop that runs forever.
\<close>

partial_function (option) split_loop ::
  "string \<Rightarrow> int \<Rightarrow> int \<Rightarrow> int \<Rightarrow> string list \<Rightarrow> string list option" where
  "split_loop section chunk_size overlap start chunks =
     (if start < int (length section) then
        split_loop section chunk_size overlap
          (split_end section chunk_size overlap start - overlap)
          (split_append chunks
             (strip (py_slice section start (split_end section chunk_size overlap start))))
      else Some chunks)"

declare split_loop.simps [code]

definition split_large_section :: "string \<Rightarrow> int \<Rightarrow> int \<Rightarrow> string list option" where
  "split_large_section section chunk_size overlap = split_loop section chunk_size overlap 0 []"

section \<open>Heading, list and table detection\<close>

text \<open>A \<open>SemanticSection\<close>; its \<open>type\<close> is one of heading, paragraph, list, table.\<close>

datatype section_type = Heading | Paragraph | ListSection | TableSection

record SemanticSection =
  stype :: section_type
  content :: string
  level :: int

definition starts_space :: "string \<Rightarrow> bool" where
  "starts_space s = (case s of [] \<Rightarrow> False | c # _ \<Rightarrow> is_space c)"

text \<open>The optional dot \<open>\.?\<close>: taken when it is there.\<close>

definition opt_dot :: "string \<Rightarrow> string" where
  "opt_dot s = (case s of [] \<Rightarrow> [] | c # r \<Rightarrow> if c = CHR ''.'' then r else s)"

text \<open>The groups \<open>(\.\d+)*\<close>, taken greedily: how many there are, and what follows them.\<close>

function eat_groups :: "string \<Rightarrow> nat \<times> string" where
  "eat_groups s =
     (case s of
        [] \<Rightarrow> (0, [])
      | c # rest \<Rightarrow>
          if c = CHR ''.'' \<and> takeWhile is_digit rest \<noteq> [] then
            (case eat_groups (dropWhile is_digit rest) of (n, r) \<Rightarrow> (Suc n, r))
          else (0, s))"
  by pat_completeness auto
termination
  by (relation "measure length") (auto simp: le_imp_less_Suc length_dropWhile_le)

text \<open>
  \<open>re.match(r"^(\d+(?:\.\d+)*)\.?\s", s)\<close>: the number of dot-separated groups of the
  numeric prefix when the pattern matches.
\<close>

definition match_numbered :: "string \<Rightarrow> nat option" where
  "match_numbered s =
     (if takeWhile is_digit s = [] then None
      else (case eat_groups (dropWhile is_digit s) of
              (n, r) \<Rightarrow> if starts_space (opt_dot r) then Some (Suc n) else None))"

definition is_IVX :: "char \<Rightarrow> bool" where
  "is_IVX c = (c = CHR ''I'' \<or> c = CHR ''V'' \<or> c = CHR ''X'')"

text \<open>\<open>re.match(r"^[IVX]+\.?\s", s)\<close> and \<open>re.match(r"^[A-Z]\.?\s", s)\<close>.\<close>

definition match_roman :: "string \<Rightarrow> bool" where
  "match_roman s = (takeWhile is_IVX s \<noteq> [] \<and> starts_space (opt_dot (dropWhile is_IVX s)))"

definition match_letter :: "string \<Rightarrow> bool" where
  "match_letter s = (case s of [] \<Rightarrow> False | c # r \<Rightarrow> is_upper_AZ c \<and> starts_space (opt_dot r))"

definition to_lower :: "char \<Rightarrow> char" where
  "to_lower c = (if is_upper_AZ c then char_of (of_char c + (32 :: nat)) else c)"

definition heading_words :: "string list" where
  "heading_words = [''section'', ''chapter'', ''part'', ''article'', ''clause'',
                    ''schedule'', ''appendix'', ''exhibit'']"

text \<open>\<open>re.match(r"^(section|...|exhibit)\s+\d+", s, re.I)\<close>.\<close>

definition match_keyword :: "string \<Rightarrow> bool" where
  "match_keyword s =
     (\<exists>w \<in> set heading_words.
        map to_lower (take (length w) s) = w \<and>
        takeWhile is_space (drop (length w) s) \<noteq> [] \<and>
        (case dropWhile is_space (drop (length w) s) of [] \<Rightarrow> False | d # _ \<Rightarrow> is_digit d))"

text \<open>The characters that \<open>str.upper\<close> changes, so that \<open>s == s.upper()\<close> iff \<open>s\<close> has none.\<close>

definition upper_changes :: "char \<Rightarrow> bool" where
  "upper_changes c =
     (let n = (of_char c :: nat)
      in (97 \<le> n \<and> n \<le> 122) \<or> n = 181 \<or> n = 223 \<or> (224 \<le> n \<and> n \<le> 246) \<or> (248 \<le> n \<and> n \<le> 255))"

definition ends_with_colon :: "string \<Rightarrow> bool" where
  "ends_with_colon s = (s \<noteq> [] \<and> last s = CHR '':'')"

definition is_likely_heading :: "string \<Rightarrow> bool" where
  "is_likely_heading text =
     (let lines = split_lines text in
      if length lines > 3 then False
      else
        (let first_line = strip (hd lines) in
         if first_line = [] then False
         else
           (match_numbered first_line \<noteq> None
            \<or> match_roman first_line
            \<or> match_letter first_line
            \<or> (\<not> (\<exists>c \<in> set first_line. upper_changes c)
                \<and> 3 < length first_line \<and> length first_line < 100)
            \<or> match_keyword first_line
            \<or> (length first_line < 80 \<and> ends_with_colon first_line)
            \<or> (length first_line < 60 \<and> length lines = 1))))"

definition get_heading_level :: "string \<Rightarrow> int" where
  "get_heading_level heading =
     (let first_line = strip (hd (split_lines heading)) in
      case match_numbered first_line of
        Some n \<Rightarrow> int n
      | None \<Rightarrow> if match_roman first_line then 1
                else if match_letter first_line then 2
                else 1)"

text \<open>
  The four list patterns, each after \<open>^\s*\<close>. The bullet of the first pattern is a code
  point above 255, which no character of this model is.
\<close>

definition list_pattern_bullet :: "string \<Rightarrow> bool" where
  "list_pattern_bullet l =
     (case dropWhile is_space l of
        [] \<Rightarrow> False
      | c # r \<Rightarrow> (c = CHR ''-'' \<or> c = CHR ''*'') \<and> starts_space r)"

definition list_pattern_number :: "string \<Rightarrow> bool" where
  "list_pattern_number l =
     (let r = dropWhile is_space l in
      takeWhile is_digit r \<noteq> [] \<and>
      (case dropWhile is_digit r of
         [] \<Rightarrow> False
       | c # r' \<Rightarrow> c = CHR ''.'' \<and> starts_space r'))"

definition list_pattern_letter :: "string \<Rightarrow> bool" where
  "list_pattern_letter l =
     (case dropWhile is_space l of
        c # p # r \<Rightarrow> is_lower_az c \<and> p = CHR '')'' \<and> starts_space r
      | _ \<Rightarrow> False)"

definition list_pattern_paren :: "string \<Rightarrow> bool" where
  "list_pattern_paren l =
     (case dropWhile is_space l of
        q # c # p # r \<Rightarrow> q = CHR ''('' \<and> is_lower_az c \<and> p = CHR '')'' \<and> starts_space r
      | _ \<Rightarrow> False)"

definition is_list_line :: "string \<Rightarrow> bool" where
  "is_list_line l =
     (list_pattern_bullet l \<or> list_pattern_number l \<or> list_pattern_letter l \<or> list_pattern_paren l)"

definition is_likely_list :: "string \<Rightarrow> bool" where
  "is_likely_list text =
     (let lines = split_lines text
      in 2 * length (filter is_list_line lines) > length lines)"

text \<open>
  The number of matches of \<open>\s{2,}|\t\<close> in a line, scanning from the left; \<open>re.split\<close>
  returns one field more.
\<close>

function table_seps :: "string \<Rightarrow> nat" where
  "table_seps s =
     (case s of
        [] \<Rightarrow> 0
      | c # cs \<Rightarrow>
          if is_space c \<and> takeWhile is_space cs \<noteq> [] then Suc (table_seps (dropWhile is_space cs))
          else if c = TAB then Suc (table_seps cs)
          else table_seps cs)"
  by pat_completeness auto
termination
  by (relation "measure length") (auto simp: le_imp_less_Suc length_dropWhile_le)

definition is_likely_table :: "string \<Rightarrow> bool" where
  "is_likely_table text =
     (let lines = split_lines text;
          has_multi_cols = (\<exists>l \<in> set lines. Suc (table_seps l) \<ge> 3);
          enough_lines = (length (filter (\<lambda>l. strip l \<noteq> []) lines) > 2)
      in has_multi_cols \<and> enough_lines)"

section \<open>The regex-based semantic parser\<close>

text \<open>\<open>re.sub(r"\r\n", "\n", s)\<close> and \<open>re.sub(r"\r", "\n", s)\<close>.\<close>

fun sub_crlf :: "string \<Rightarrow> string" where
  "sub_crlf (a # b # rest) =
     (if a = CR \<and> b = LF then LF # sub_crlf rest else a # sub_crlf (b # rest))"
| "sub_crlf s = s"

definition sub_cr :: "string \<Rightarrow> string" where
  "sub_cr s = map (\<lambda>c. if c = CR then LF else c) s"

text \<open>\<open>re.sub(r"\n{3,}", "\n\n", s)\<close>: a run of three or more line feeds becomes two.\<close>

function sub_newlines :: "string \<Rightarrow> string" where
  "sub_newlines s =
     (case s of
        [] \<Rightarrow> []
      | c # cs \<Rightarrow>
          if c = LF \<and> length (takeWhile (\<lambda>x. x = LF) cs) \<ge> 2
          then LF # LF # sub_newlines (dropWhile (\<lambda>x. x = LF) cs)
          else c # sub_newlines cs)"
  by pat_completeness auto
termination
  by (relation "measure length") (auto simp: le_imp_less_Suc length_dropWhile_le)

definition is_blank :: "char \<Rightarrow> bool" where
  "is_blank c = (c = CHR '' '' \<or> c = TAB)"

text \<open>\<open>re.sub(r"[ \t]+", " ", s)\<close>: a run of spaces and tabs becomes one space.\<close>

function sub_blanks :: "string \<Rightarrow> string" where
  "sub_blanks s =
     (case s of
        [] \<Rightarrow> []
      | c # cs \<Rightarrow>
          if is_blank c then CHR '' '' # sub_blanks (dropWhile is_blank cs)
          else c # sub_blanks cs)"
  by pat_completeness auto
termination
  by (relation "measure length") (auto simp: le_imp_less_Suc length_dropWhile_le)

text \<open>
  \<open>re.split(r"\n\s*\n", s)\<close>. At a line feed the pattern matches when the whitespace
  run after it holds another line feed, and the greedy \<open>\s*\<close> makes the match end at the
  last line feed of that run: \<open>after_last_LF\<close> is what is left of the run.
\<close>

definition after_last_LF :: "string \<Rightarrow> string" where
  "after_last_LF ws = rev (takeWhile (\<lambda>x. x \<noteq> LF) (rev ws))"

function split_paragraphs :: "string \<Rightarrow> string list" where
  "split_paragraphs s =
     (case s of
        [] \<Rightarrow> [[]]
      | c # cs \<Rightarrow>
          if c = LF \<and> LF \<in> set (takeWhile is_space cs)
          then [] # split_paragraphs (after_last_LF (takeWhile is_space cs) @ dropWhile is_space cs)
          else (case split_paragraphs cs of
                  [] \<Rightarrow> [[c]]
                | p # ps \<Rightarrow> (c # p) # ps))"
  by pat_completeness auto
termination
proof (relation "measure length")
  show "wf (measure length)" by simp
next
  fix s :: string and c cs
  assume "s = c # cs" "c = LF \<and> LF \<in> set (takeWhile is_space cs)"
  have "length (after_last_LF (takeWhile is_space cs)) \<le> length (takeWhile is_space cs)"
    by (simp add: after_last_LF_def length_takeWhile_le del: takeWhile_eq_all_conv)
        (metis length_rev length_takeWhile_le)
  moreover have "length (takeWhile is_space cs) + length (dropWhile is_space cs) = length cs"
    by (metis length_append takeWhile_dropWhile_id)
  ultimately show "(after_last_LF (takeWhile is_space cs) @ dropWhile is_space cs, s) \<in> measure length"
    using \<open>s = c # cs\<close> by simp
next
  fix s :: string and c cs
  assume "s = c # cs"
  then show "(cs, s) \<in> measure length" by simp
qed

definition normalise :: "string \<Rightarrow> string" where
  "normalise text = strip (sub_blanks (sub_newlines (sub_cr (sub_crlf text))))"

definition classify :: "string \<Rightarrow> SemanticSection" where
  "classify trimmed =
     (if is_likely_heading trimmed then
        \<lparr>stype = Heading, content = trimmed, level = get_heading_level trimmed\<rparr>
      else if is_likely_list trimmed then \<lparr>stype = ListSection, content = trimmed, level = 1\<rparr>
      else if is_likely_table trimmed then \<lparr>stype = TableSection, content = trimmed, level = 1\<rparr>
      else \<lparr>stype = Paragraph, content = trimmed, level = 1\<rparr>)"

definition parse_with_regex :: "string \<Rightarrow> SemanticSection list" where
  "parse_with_regex text =
     map classify (filter (\<lambda>trimmed. trimmed \<noteq> [])
       (map strip (split_paragraphs (normalise text))))"

section \<open>Sections to chunks\<close>

text \<open>What the code can raise.\<close>

datatype error =
    IndexError
  | TypeError
  | AttributeError
  | KeyError
  | ValueError
  | OverflowError
  | ZeroDivisionError
  | RuntimeError string
  | TransportError string

text \<open>
  The first \<open>if\<close> of the loop body of \<open>_sections_to_chunks\<close>, on the pair of the chunks
  emitted so far and the accumulator \<open>current\<close>.
\<close>

definition pack_section :: "string \<Rightarrow> int \<Rightarrow> int \<Rightarrow> string list \<times> string \<Rightarrow> string list \<times> string" where
  "pack_section c chunk_size overlap st =
     (case st of (chunks, current) \<Rightarrow>
        if int (length current) + int (length c) > chunk_size \<and> current \<noteq> [] then
          (let over = get_overlap_text current overlap
           in (chunks @ [strip current], over @ (if over \<noteq> [] then [LF, LF] else []) @ c))
        else (chunks, if current \<noteq> [] then current @ [LF, LF] @ c else c))"

text \<open>
  The \<open>for\<close> loop and the final emission. \<open>subs[0]\<close> raises \<open>IndexError\<close> on an empty
  list; \<open>None\<close> is a splitting loop that does not end.
\<close>

fun sections_loop ::
  "SemanticSection list \<Rightarrow> int \<Rightarrow> int \<Rightarrow> string list \<times> string \<Rightarrow> (error + string list) option" where
  "sections_loop [] chunk_size overlap (chunks, current) =
     Some (Inr (if strip current \<noteq> [] then chunks @ [strip current] else chunks))"
| "sections_loop (s # rest) chunk_size overlap (chunks, current) =
     (case pack_section (content s) chunk_size overlap (chunks, current) of
        (chunks1, current1) \<Rightarrow>
          if int (length (content s)) > chunk_size then
            (case split_large_section (content s) chunk_size overlap of
               None \<Rightarrow> None
             | Some [] \<Rightarrow> Some (Inl IndexError)
             | Some (sub0 # subs) \<Rightarrow> sections_loop rest chunk_size overlap (chunks1 @ subs, sub0))
          else sections_loop rest chunk_size overlap (chunks1, current1))"

definition sections_to_chunks ::
  "SemanticSection list \<Rightarrow> int \<Rightarrow> int \<Rightarrow> (error + string list) option" where
  "sections_to_chunks sections chunk_size overlap = sections_loop sections chunk_size overlap ([], [])"

section \<open>Public API of the chunker\<close>

definition chunk_text :: "string \<Rightarrow> int \<Rightarrow> int \<Rightarrow> (error + string list) option" where
  "chunk_text text chunk_size overlap =
     (if int (length text) \<le> chunk_size then Some (Inr [text])
      else sections_to_chunks (parse_with_regex text) chunk_size overlap)"

definition markdown_line :: "string \<Rightarrow> string" where
  "markdown_line line =
     (let stripped = strip line in
      if stripped = [] then []
      else if is_likely_heading stripped
        then replicate (nat (get_heading_level stripped)) (CHR ''#'') @ '' '' @ stripped
        else stripped)"

definition convert_pdf_to_markdown :: "string \<Rightarrow> string" where
  "convert_pdf_to_markdown pdf_text =
     strip (join [LF] (map markdown_line (split_lines (sub_newlines (sub_cr (sub_crlf pdf_text))))))"


section \<open>JSON values\<close>

text \<open>
  What \<open>json.loads\<close> and \<open>resp.json()\<close> return: \<open>None\<close>, booleans, numbers, strings, lists
  and dicts. A dict is an association list with distinct keys, in insertion order. A number
  is an \<open>int\<close> (\<open>JInt\<close>) or a \<open>float\<close> (\<open>JNum\<close>, given by its value; the literals \<open>NaN\<close> and
  \<open>Infinity\<close>, which are not JSON, are left out).
\<close>

datatype json =
    JNull
  | JBool bool
  | JInt int
  | JNum real
  | JStr string
  | JArr "json list"
  | JObj "(string \<times> json) list"

text \<open>Truth value testing (\<open>if parsed\<close>, \<open>if not parsed\<close>).\<close>

fun truthy :: "json \<Rightarrow> bool" where
  "truthy JNull = False"
| "truthy (JBool b) = b"
| "truthy (JInt i) = (i \<noteq> 0)"
| "truthy (JNum x) = (x \<noteq> 0)"
| "truthy (JStr s) = (s \<noteq> [])"
| "truthy (JArr xs) = (xs \<noteq> [])"
| "truthy (JObj kvs) = (kvs \<noteq> [])"

text \<open>\<open>d.get(k, default)\<close> and \<open>d[k] = v\<close> on the items of a dict.\<close>

definition dict_get :: "(string \<times> json) list \<Rightarrow> string \<Rightarrow> json \<Rightarrow> json" where
  "dict_get kvs k dflt = (case map_of kvs k of None \<Rightarrow> dflt | Some v \<Rightarrow> v)"

definition dict_set :: "(string \<times> json) list \<Rightarrow> string \<Rightarrow> json \<Rightarrow> (string \<times> json) list" where
  "dict_set kvs k v =
     (if k \<in> fst ` set kvs then map (\<lambda>(k', v'). if k' = k then (k', v) else (k', v')) kvs
      else kvs @ [(k, v)])"

text \<open>
  Iterating over a value (\<open>for x in v\<close>, \<open>list.extend(v)\<close>): the elements of a list, the
  characters of a string, the keys of a dict; anything else raises \<open>TypeError\<close>.
\<close>

fun py_iter :: "json \<Rightarrow> error + json list" where
  "py_iter (JArr xs) = Inr xs"
| "py_iter (JStr s) = Inr (map (\<lambda>c. JStr [c]) s)"
| "py_iter (JObj kvs) = Inr (map (\<lambda>kv. JStr (fst kv)) kvs)"
| "py_iter _ = Inl TypeError"

text \<open>\<open>v[:n]\<close>: strings and lists can be sliced, nothing else.\<close>

fun json_slice_to :: "json \<Rightarrow> int \<Rightarrow> error + json" where
  "json_slice_to (JStr s) n = Inr (JStr (py_slice_to s n))"
| "json_slice_to (JArr xs) n = Inr (JArr (py_slice_to xs n))"
| "json_slice_to _ n = Inl TypeError"

text \<open>\<open>v.get\<close> and \<open>v.strip\<close> exist on dicts and on strings only: \<open>AttributeError\<close> otherwise.\<close>

fun as_dict :: "json \<Rightarrow> error + (string \<times> json) list" where
  "as_dict (JObj kvs) = Inr kvs"
| "as_dict _ = Inl AttributeError"

fun as_str :: "json \<Rightarrow> error + string" where
  "as_str (JStr s) = Inr s"
| "as_str _ = Inl AttributeError"

section \<open>The capabilities (groq\_service.py)\<close>

text \<open>
  The messages of a call to \<open>chat_complete\<close> are a fixed system prompt and a user prompt
  that is formatted from the data below; the model and the temperature are the same in
  every call. A prompt is modelled by its kind and the data formatted into it.
\<close>

datatype prompt =
    AnalyzeChunkPrompt string string
  | SynthesizePrompt string "(json \<times> json \<times> json \<times> json) list"
  | SummarizePrompt string int string "(json \<times> json) list"
  | SimulatePrompt string string

datatype call = ChatCall prompt | EmbedCall "string list"

record http_response =
  status_code :: int
  body_text :: string
  body_json :: "json option"

text \<open>
  The numbers of the interpreter. A \<open>float\<close> is a finite value, an infinity or a NaN (the two
  zeros are one value: this code does nothing that tells them apart); a number is an \<open>int\<close>
  or a \<open>float\<close>. The arithmetic that rounds is not fixed here: \<open>sum\<close>, \<open>*\<close>, \<open>math.sqrt\<close> and
  \<open>/\<close> are what the interpreter and its platform make of them, and each may raise
  (\<open>OverflowError\<close> for an \<open>int\<close> that is too large for a \<open>float\<close>, \<open>ValueError\<close> for the
  root of a negative number).
\<close>

datatype pyfloat = Finite real | PosInf | NegInf | NaN

datatype pynum = PInt int | PFloat pyfloat

record py_arith =
  py_sum :: "pynum list \<Rightarrow> error + pynum"
  py_mul :: "pynum \<Rightarrow> pynum \<Rightarrow> error + pynum"
  math_sqrt :: "pynum \<Rightarrow> error + pyfloat"
  py_truediv :: "pynum \<Rightarrow> pynum \<Rightarrow> error + pyfloat"

text \<open>
  The world outside: the configured API key, the HTTP endpoint (its answer may depend on
  every call made so far; \<open>Inl\<close> is an exception of the HTTP client), \<open>json.loads\<close>
  (\<open>None\<close> for \<open>JSONDecodeError\<close>) and the arithmetic of the interpreter. The state threaded
  through the pipeline is the log of the calls made to \<open>chat_complete\<close> and \<open>embed_texts\<close>.
\<close>

record env =
  GROQ_API_KEY :: string
  http_post :: "call list \<Rightarrow> call \<Rightarrow> string + http_response"
  json_loads :: "string \<Rightarrow> json option"
  arith :: py_arith

type_synonym world = "call list"

text \<open>\<open>str(n)\<close> for an int.\<close>

fun digits_of :: "nat \<Rightarrow> string" where
  "digits_of n = (if n < 10 then [char_of (48 + n)] else digits_of (n div 10) @ [char_of (48 + n mod 10)])"

definition str_int :: "int \<Rightarrow> string" where
  "str_int i = (if i < 0 then CHR ''-'' # digits_of (nat (- i)) else digits_of (nat i))"

definition api_key_message :: string where
  "api_key_message = ''GROQ_API_KEY is not set''"

definition chat_failed_message :: "int \<Rightarrow> string \<Rightarrow> string" where
  "chat_failed_message status body = ''Groq chat failed: '' @ str_int status @ '' '' @ body"

definition embeddings_failed_message :: "int \<Rightarrow> string \<Rightarrow> string" where
  "embeddings_failed_message status body = ''Groq embeddings failed: '' @ str_int status @ '' '' @ body"

text \<open>\<open>v[0]\<close>.\<close>

fun first_item :: "json \<Rightarrow> error + json" where
  "first_item (JArr []) = Inl IndexError"
| "first_item (JArr (x # _)) = Inr x"
| "first_item (JStr []) = Inl IndexError"
| "first_item (JStr (c # _)) = Inr (JStr [c])"
| "first_item (JObj _) = Inl KeyError"
| "first_item _ = Inl TypeError"

text \<open>\<open>data.get("choices", [{}])[0].get("message", {}).get("content", "")\<close>.\<close>

definition chat_content :: "json \<Rightarrow> error + json" where
  "chat_content data =
     (case as_dict data of
        Inl e \<Rightarrow> Inl e
      | Inr d \<Rightarrow>
          (case first_item (dict_get d ''choices'' (JArr [JObj []])) of
             Inl e \<Rightarrow> Inl e
           | Inr choice \<Rightarrow>
               (case as_dict choice of
                  Inl e \<Rightarrow> Inl e
                | Inr c \<Rightarrow>
                    (case as_dict (dict_get c ''message'' (JObj [])) of
                       Inl e \<Rightarrow> Inl e
                     | Inr m \<Rightarrow> Inr (dict_get m ''content'' (JStr []))))))"

definition chat_complete :: "env \<Rightarrow> world \<Rightarrow> prompt \<Rightarrow> (error + json) \<times> world" where
  "chat_complete env w p =
     (if GROQ_API_KEY env = [] then Inl (RuntimeError api_key_message)
      else
        (case http_post env w (ChatCall p) of
           Inl m \<Rightarrow> Inl (TransportError m)
         | Inr resp \<Rightarrow>
             if status_code resp \<noteq> 200
             then Inl (RuntimeError (chat_failed_message (status_code resp) (body_text resp)))
             else (case body_json resp of
                     None \<Rightarrow> Inl (TransportError ''response is not JSON'')
                   | Some data \<Rightarrow> chat_content data)),
      w @ [ChatCall p])"

text \<open>\<open>d["embedding"]\<close>, and the list comprehension over \<open>data.get("data", [])\<close>.\<close>

fun embedding_of :: "json \<Rightarrow> error + json" where
  "embedding_of (JObj kvs) = (case map_of kvs ''embedding'' of None \<Rightarrow> Inl KeyError | Some v \<Rightarrow> Inr v)"
| "embedding_of _ = Inl TypeError"

fun collect :: "('a \<Rightarrow> error + 'b) \<Rightarrow> 'a list \<Rightarrow> error + 'b list" where
  "collect f [] = Inr []"
| "collect f (x # xs) =
     (case f x of
        Inl e \<Rightarrow> Inl e
      | Inr y \<Rightarrow> (case collect f xs of Inl e \<Rightarrow> Inl e | Inr ys \<Rightarrow> Inr (y # ys)))"

definition embed_texts :: "env \<Rightarrow> world \<Rightarrow> string list \<Rightarrow> (error + json list) \<times> world" where
  "embed_texts env w texts =
     (if texts = [] then Inr []
      else if GROQ_API_KEY env = [] then Inl (RuntimeError api_key_message)
      else
        (case http_post env w (EmbedCall texts) of
           Inl m \<Rightarrow> Inl (TransportError m)
         | Inr resp \<Rightarrow>
             if status_code resp \<noteq> 200
             then Inl (RuntimeError (embeddings_failed_message (status_code resp) (body_text resp)))
             else (case body_json resp of
                     None \<Rightarrow> Inl (TransportError ''response is not JSON'')
                   | Some data \<Rightarrow>
                       (case as_dict data of
                          Inl e \<Rightarrow> Inl e
                        | Inr d \<Rightarrow>
                            (case py_iter (dict_get d ''data'' (JArr [])) of
                               Inl e \<Rightarrow> Inl e
                             | Inr items \<Rightarrow> collect embedding_of items)))),
      w @ [EmbedCall texts])"


section \<open>The analysis service (analysis\_service.py)\<close>

text \<open>\<open>s.lstrip(chars)\<close>, \<open>s.rstrip(chars)\<close>, \<open>s.startswith(p)\<close> and \<open>s.endswith(p)\<close>.\<close>

definition lstrip_chars :: "string \<Rightarrow> string \<Rightarrow> string" where
  "lstrip_chars chars s = dropWhile (\<lambda>c. c \<in> set chars) s"

definition rstrip_chars :: "string \<Rightarrow> string \<Rightarrow> string" where
  "rstrip_chars chars s = rev (dropWhile (\<lambda>c. c \<in> set chars) (rev s))"

definition startswith :: "string \<Rightarrow> string \<Rightarrow> bool" where
  "startswith s p = (take (length p) s = p)"

definition endswith :: "string \<Rightarrow> string \<Rightarrow> bool" where
  "endswith s p = (length p \<le> length s \<and> drop (length s - length p) s = p)"

definition try_parse_json :: "env \<Rightarrow> string \<Rightarrow> json option" where
  "try_parse_json env txt =
     (let cleaned = strip txt;
          cleaned = (if startswith cleaned ''```''
                     then lstrip_chars ''`'' (lstrip_chars ''json'' (lstrip_chars ''`'' cleaned))
                     else cleaned);
          cleaned = (if endswith cleaned ''```'' then rstrip_chars ''`'' cleaned else cleaned);
          cleaned = strip cleaned
      in json_loads env cleaned)"

text \<open>
  \<open>_analyze_chunk\<close>: one generation call; the value of \<open>clauses\<close> of a parsed, non-empty
  dict, and the empty list otherwise. \<open>output.strip()\<close> raises when the content is no string.
\<close>

definition analyze_chunk :: "env \<Rightarrow> string \<Rightarrow> string \<Rightarrow> world \<Rightarrow> (error + json) \<times> world" where
  "analyze_chunk env chunk role w =
     (case chat_complete env w (AnalyzeChunkPrompt role chunk) of
        (Inl e, w') \<Rightarrow> (Inl e, w')
      | (Inr output, w') \<Rightarrow>
          (case as_str output of
             Inl e \<Rightarrow> (Inl e, w')
           | Inr txt \<Rightarrow>
               (case try_parse_json env txt of
                  Some (JObj kvs) \<Rightarrow>
                    if kvs \<noteq> [] then (Inr (dict_get kvs ''clauses'' (JArr [])), w')
                    else (Inr (JArr []), w')
                | _ \<Rightarrow> (Inr (JArr []), w'))))"

text \<open>
  \<open>asyncio.gather\<close> over the chunks. The calls are independent; they are modelled in chunk
  order, every call is made, the results come back in chunk order, and a call that raises
  makes the whole gather raise (the first in chunk order here).
\<close>

fun gather_analyze :: "env \<Rightarrow> string list \<Rightarrow> string \<Rightarrow> world \<Rightarrow> (error + json list) \<times> world" where
  "gather_analyze env [] role w = (Inr [], w)"
| "gather_analyze env (chunk # chunks) role w =
     (case analyze_chunk env chunk role w of
        (r, w1) \<Rightarrow>
          (case gather_analyze env chunks role w1 of
             (rs, w2) \<Rightarrow>
               ((case r of
                   Inl e \<Rightarrow> Inl e
                 | Inr v \<Rightarrow> (case rs of Inl e \<Rightarrow> Inl e | Inr vs \<Rightarrow> Inr (v # vs))),
                w2)))"

text \<open>The loop \<open>for result in chunk_results: all_clauses.extend(result)\<close>.\<close>

fun extend_all :: "json list \<Rightarrow> error + json list" where
  "extend_all [] = Inr []"
| "extend_all (result # results) =
     (case py_iter result of
        Inl e \<Rightarrow> Inl e
      | Inr xs \<Rightarrow> (case extend_all results of Inl e \<Rightarrow> Inl e | Inr ys \<Rightarrow> Inr (xs @ ys)))"

text \<open>The data of one clause in the context of the synthesis prompt.\<close>

definition synth_line :: "json \<Rightarrow> error + (json \<times> json \<times> json \<times> json)" where
  "synth_line c =
     (case as_dict c of
        Inl e \<Rightarrow> Inl e
      | Inr d \<Rightarrow> Inr (dict_get d ''clauseText'' (JStr []), dict_get d ''simplifiedExplanation'' (JStr []),
                      dict_get d ''riskLevel'' (JStr []), dict_get d ''riskReason'' (JStr [])))"

definition synthesis_failed_message :: string where
  "synthesis_failed_message = ''Failed to parse synthesis JSON''"

text \<open>
  \<open>"chunkSummaries" not in parsed\<close> followed by \<open>parsed["chunkSummaries"] = []\<close>: on a dict
  the key is added when missing; a list or a string that holds the key passes, one that
  does not raises on the assignment; a number or \<open>True\<close> raises on the test.
\<close>

fun default_chunk_summaries :: "json \<Rightarrow> error + json" where
  "default_chunk_summaries (JObj kvs) =
     (if ''chunkSummaries'' \<in> fst ` set kvs then Inr (JObj kvs)
      else Inr (JObj (kvs @ [(''chunkSummaries'', JArr [])])))"
| "default_chunk_summaries (JArr xs) =
     (if JStr ''chunkSummaries'' \<in> set xs then Inr (JArr xs) else Inl TypeError)"
| "default_chunk_summaries (JStr s) =
     (if rfind s ''chunkSummaries'' \<noteq> - 1 then Inr (JStr s) else Inl TypeError)"
| "default_chunk_summaries _ = Inl TypeError"

definition synthesize_report :: "env \<Rightarrow> json list \<Rightarrow> string \<Rightarrow> world \<Rightarrow> (error + json) \<times> world" where
  "synthesize_report env clauses role w =
     (case collect synth_line clauses of
        Inl e \<Rightarrow> (Inl e, w)
      | Inr ctx \<Rightarrow>
          (case chat_complete env w (SynthesizePrompt role ctx) of
             (Inl e, w') \<Rightarrow> (Inl e, w')
           | (Inr output, w') \<Rightarrow>
               (case as_str output of
                  Inl e \<Rightarrow> (Inl e, w')
                | Inr txt \<Rightarrow>
                    (case try_parse_json env txt of
                       None \<Rightarrow> (Inl (RuntimeError synthesis_failed_message), w')
                     | Some parsed \<Rightarrow>
                         if \<not> truthy parsed then (Inl (RuntimeError synthesis_failed_message), w')
                         else (default_chunk_summaries parsed, w')))))"

text \<open>A \<open>ChunkSummary\<close>, and the dict \<open>{"chunkIndex": i + 1, "summary": ...}\<close> it is built as.\<close>

record ChunkSummary =
  chunkIndex :: int
  summary :: string

definition summary_json :: "ChunkSummary \<Rightarrow> json" where
  "summary_json s = JObj [(''chunkIndex'', JInt (chunkIndex s)), (''summary'', JStr (summary s))]"

text \<open>
  \<open>math.ceil(len(clauses) / len(chunks)) if chunks else len(clauses)\<close>; the quotient of
  the two lengths is idealised as a real.
\<close>

definition per_chunk_of :: "nat \<Rightarrow> nat \<Rightarrow> int" where
  "per_chunk_of n_clauses n_chunks =
     (if n_chunks \<noteq> 0 then \<lceil>real n_clauses / real n_chunks\<rceil> else int n_clauses)"

text \<open>The clauses that chunk \<open>i\<close> (from 0) is summarized against: \<open>clauses[start:end]\<close>.\<close>

definition chunk_clauses_of :: "json list \<Rightarrow> int \<Rightarrow> int \<Rightarrow> json list" where
  "chunk_clauses_of clauses per_chunk i =
     (let start = i * per_chunk;
          end = min (start + per_chunk) (int (length clauses))
      in py_slice clauses start end)"

text \<open>The data of one clause in the context of a summary prompt.\<close>

definition summary_line :: "json \<Rightarrow> error + (json \<times> json)" where
  "summary_line c =
     (case as_dict c of
        Inl e \<Rightarrow> Inl e
      | Inr d \<Rightarrow>
          (case json_slice_to (dict_get d ''clauseText'' (JStr [])) 100 of
             Inl e \<Rightarrow> Inl e
           | Inr t \<Rightarrow> Inr (t, dict_get d ''riskLevel'' (JStr []))))"

text \<open>
  The loop of \<open>_create_chunk_summaries\<close> over \<open>enumerate(chunks)\<close>, from index \<open>i\<close> on, with
  the summaries collected so far.
\<close>

fun summaries_loop ::
  "env \<Rightarrow> json list \<Rightarrow> string \<Rightarrow> int \<Rightarrow> int \<Rightarrow> string list \<Rightarrow> ChunkSummary list \<Rightarrow> world
   \<Rightarrow> (error + ChunkSummary list) \<times> world" where
  "summaries_loop env clauses role per_chunk i [] summaries w = (Inr summaries, w)"
| "summaries_loop env clauses role per_chunk i (chunk # chunks) summaries w =
     (case collect summary_line (chunk_clauses_of clauses per_chunk i) of
        Inl e \<Rightarrow> (Inl e, w)
      | Inr clause_ctx \<Rightarrow>
          (case chat_complete env w (SummarizePrompt role (i + 1) (py_slice_to chunk 500) clause_ctx) of
             (Inl e, w') \<Rightarrow> (Inl e, w')
           | (Inr output, w') \<Rightarrow>
               (case as_str output of
                  Inl e \<Rightarrow> (Inl e, w')
                | Inr txt \<Rightarrow>
                    summaries_loop env clauses role per_chunk (i + 1) chunks
                      (summaries @ [\<lparr>chunkIndex = i + 1, summary = strip txt\<rparr>]) w')))"

definition create_chunk_summaries ::
  "env \<Rightarrow> string list \<Rightarrow> json list \<Rightarrow> string \<Rightarrow> world \<Rightarrow> (error + ChunkSummary list) \<times> world" where
  "create_chunk_summaries env chunks clauses role w =
     summaries_loop env clauses role (per_chunk_of (length clauses) (length chunks)) 0 chunks [] w"

definition no_clauses_message :: string where
  "no_clauses_message =
     ''No legal clauses were identified in the document. '' @
     ''It might be too short or in an unsupported format.''"

text \<open>\<open>{**final_report, "clauses": all_clauses, "chunkSummaries": chunk_summaries}\<close>.\<close>

definition merge_report :: "json \<Rightarrow> json list \<Rightarrow> ChunkSummary list \<Rightarrow> error + (string \<times> json) list" where
  "merge_report final_report all_clauses chunk_summaries =
     (case final_report of
        JObj kvs \<Rightarrow>
          Inr (dict_set (dict_set kvs ''clauses'' (JArr all_clauses))
                 ''chunkSummaries'' (JArr (map summary_json chunk_summaries)))
      | _ \<Rightarrow> Inl TypeError)"

text \<open>
  \<open>analyze_contract\<close>. The progress callback is a side channel and is left out. \<open>None\<close> is a
  chunker that does not return.
\<close>

definition analyze_contract ::
  "env \<Rightarrow> string \<Rightarrow> string \<Rightarrow> world \<Rightarrow> ((error + (string \<times> json) list) \<times> world) option" where
  "analyze_contract env document_text role w =
     (case chunk_text (convert_pdf_to_markdown document_text) 4000 300 of
        None \<Rightarrow> None
      | Some (Inl e) \<Rightarrow> Some (Inl e, w)
      | Some (Inr chunks) \<Rightarrow>
          Some
            (case gather_analyze env chunks role w of
               (Inl e, w1) \<Rightarrow> (Inl e, w1)
             | (Inr chunk_results, w1) \<Rightarrow>
                 (case extend_all chunk_results of
                    Inl e \<Rightarrow> (Inl e, w1)
                  | Inr all_clauses \<Rightarrow>
                      if all_clauses = [] then (Inl (RuntimeError no_clauses_message), w1)
                      else
                        (case create_chunk_summaries env chunks all_clauses role w1 of
                           (Inl e, w2) \<Rightarrow> (Inl e, w2)
                         | (Inr chunk_summaries, w2) \<Rightarrow>
                             (case synthesize_report env all_clauses role w2 of
                                (Inl e, w3) \<Rightarrow> (Inl e, w3)
                              | (Inr final_report, w3) \<Rightarrow>
                                  (merge_report final_report all_clauses chunk_summaries, w3))))))"

section \<open>The impact simulator\<close>

text \<open>
  A vector as \<open>_cosine_similarity\<close> can use it: a sequence of numbers (\<open>True\<close> and \<open>False\<close>
  are the ints 1 and 0). Every element of both vectors is squared and the square is added
  to the int 0, which raises \<open>TypeError\<close> for anything that is not a number.
\<close>

fun json_number :: "json \<Rightarrow> error + pynum" where
  "json_number (JInt i) = Inr (PInt i)"
| "json_number (JNum x) = Inr (PFloat (Finite x))"
| "json_number (JBool b) = Inr (PInt (if b then 1 else 0))"
| "json_number _ = Inl TypeError"

definition json_vector :: "json \<Rightarrow> error + pynum list" where
  "json_vector v = (case py_iter v of Inl e \<Rightarrow> Inl e | Inr xs \<Rightarrow> collect json_number xs)"

text \<open>Truth value testing of a number (\<open>na * nb or 1.0\<close>): only zero is false.\<close>

fun num_truthy :: "pynum \<Rightarrow> bool" where
  "num_truthy (PInt i) = (i \<noteq> 0)"
| "num_truthy (PFloat (Finite x)) = (x \<noteq> 0)"
| "num_truthy (PFloat _) = True"

text \<open>
  \<open>sum(x * y for x, y in zip(a, b))\<close> and \<open>math.sqrt(sum(x * x for x in a))\<close>. The products are
  made one by one while \<open>sum\<close> adds them; which of two exceptions comes first is not kept,
  the only caller catches them all.
\<close>

definition dot_product :: "py_arith \<Rightarrow> pynum list \<Rightarrow> pynum list \<Rightarrow> error + pynum" where
  "dot_product ar a b =
     (case collect (\<lambda>(x, y). py_mul ar x y) (zip a b) of
        Inl e \<Rightarrow> Inl e
      | Inr products \<Rightarrow> py_sum ar products)"

definition norm_of :: "py_arith \<Rightarrow> pynum list \<Rightarrow> error + pyfloat" where
  "norm_of ar a =
     (case collect (\<lambda>x. py_mul ar x x) a of
        Inl e \<Rightarrow> Inl e
      | Inr squares \<Rightarrow>
          (case py_sum ar squares of Inl e \<Rightarrow> Inl e | Inr s \<Rightarrow> math_sqrt ar s))"

definition cosine_similarity :: "py_arith \<Rightarrow> pynum list \<Rightarrow> pynum list \<Rightarrow> error + pyfloat" where
  "cosine_similarity ar a b =
     (case dot_product ar a b of
        Inl e \<Rightarrow> Inl e
      | Inr dot \<Rightarrow>
          (case norm_of ar a of
             Inl e \<Rightarrow> Inl e
           | Inr na \<Rightarrow>
               (case norm_of ar b of
                  Inl e \<Rightarrow> Inl e
                | Inr nb \<Rightarrow>
                    (case py_mul ar (PFloat na) (PFloat nb) of
                       Inl e \<Rightarrow> Inl e
                     | Inr norms \<Rightarrow>
                         py_truediv ar dot
                           (if num_truthy norms then norms else PFloat (Finite 1))))))"

text \<open>
  \<open>_cosine_similarity(v, query_vec)\<close> on two values of the response: both are iterated, and
  their elements are used as numbers.
\<close>

definition similarity :: "py_arith \<Rightarrow> json \<Rightarrow> json \<Rightarrow> error + pyfloat" where
  "similarity ar v query_vec =
     (case json_vector v of
        Inl e \<Rightarrow> Inl e
      | Inr a \<Rightarrow>
          (case json_vector query_vec of
             Inl e \<Rightarrow> Inl e
           | Inr b \<Rightarrow> cosine_similarity ar a b))"

text \<open>\<open><\<close> on floats: a NaN is neither below nor above anything.\<close>

fun float_less :: "pyfloat \<Rightarrow> pyfloat \<Rightarrow> bool" where
  "float_less (Finite x) (Finite y) = (x < y)"
| "float_less (Finite x) PosInf = True"
| "float_less NegInf (Finite y) = True"
| "float_less NegInf PosInf = True"
| "float_less _ _ = False"

text \<open>
  \<open>sorted(..., key=lambda x: x[1], reverse=True)\<close>: descending by score, and stable (equal
  scores keep the order of the input). Each element is put in front of the sorted rest
  unless its score is less than the score of the first element there, and then goes behind
  that element in the same way. The scores are compared with \<open><\<close> only. When a score is a
  NaN the scores are not ordered by \<open><\<close>, and the result of Python's merge sort depends on
  the comparisons it happens to make: that case is not modelled.
\<close>

fun insert_desc :: "nat \<times> pyfloat \<Rightarrow> (nat \<times> pyfloat) list \<Rightarrow> (nat \<times> pyfloat) list" where
  "insert_desc x [] = [x]"
| "insert_desc x (y # ys) =
     (if float_less (snd x) (snd y) then y # insert_desc x ys else x # y # ys)"

definition sorted_desc :: "(nat \<times> pyfloat) list \<Rightarrow> (nat \<times> pyfloat) list" where
  "sorted_desc xs = foldr insert_desc xs []"

text \<open>
  The body of \<open>_vector_retrieve_relevant_chunks\<close> after the check of the lengths:
  \<open>vectors[-1]\<close> is the query vector, \<open>vectors[:-1]\<close> are the vectors of the chunks, scored in
  their order.
\<close>

definition rank_chunks :: "py_arith \<Rightarrow> string list \<Rightarrow> json list \<Rightarrow> int \<Rightarrow> error + string list" where
  "rank_chunks ar chunks vectors top_k =
     (case collect (\<lambda>v. similarity ar v (last vectors)) (butlast vectors) of
        Inl e \<Rightarrow> Inl e
      | Inr scores \<Rightarrow>
          (let scored = sorted_desc (zip [0..<length scores] scores);
               selected = map (\<lambda>(idx, _). chunks ! idx)
                 (py_slice_to scored (min top_k (int (length scored))))
           in Inr (if selected \<noteq> [] then selected else chunks)))"

text \<open>
  \<open>_vector_retrieve_relevant_chunks\<close>. Everything after \<open>try:\<close> that raises ends in
  \<open>except Exception: return chunks\<close>.
\<close>

definition vector_retrieve_relevant_chunks ::
  "env \<Rightarrow> string list \<Rightarrow> string \<Rightarrow> int \<Rightarrow> world \<Rightarrow> string list \<times> world" where
  "vector_retrieve_relevant_chunks env chunks query top_k w =
     (case embed_texts env w (chunks @ [query]) of
        (Inl e, w') \<Rightarrow> (chunks, w')
      | (Inr vectors, w') \<Rightarrow>
          if length vectors \<noteq> length (chunks @ [query]) then (chunks, w')
          else (case rank_chunks (arith env) chunks vectors top_k of
                  Inl e \<Rightarrow> (chunks, w')
                | Inr selected \<Rightarrow> (selected, w')))"

definition guidance_message :: string where
  "guidance_message = ''Please enter a scenario to simulate.''"

definition not_found_message :: string where
  "not_found_message =
     ''Could not find any information in the document relevant to your scenario. '' @
     ''Please try rephrasing your question or check if the topic is covered in the contract.''"

definition simulate_impact ::
  "env \<Rightarrow> string \<Rightarrow> string \<Rightarrow> world \<Rightarrow> ((error + json) \<times> world) option" where
  "simulate_impact env document_text scenario w =
     (if strip scenario = [] then Some (Inr (JStr guidance_message), w)
      else
        (case chunk_text document_text 1500 200 of
           None \<Rightarrow> None
         | Some (Inl e) \<Rightarrow> Some (Inl e, w)
         | Some (Inr chunks) \<Rightarrow>
             (case vector_retrieve_relevant_chunks env chunks scenario 6 w of
                (relevant, w1) \<Rightarrow>
                  if relevant = [] then Some (Inr (JStr not_found_message), w1)
                  else Some (chat_complete env w1
                               (SimulatePrompt scenario
                                  (join ([LF, LF] @ ''---'' @ [LF, LF]) relevant))))))"


section \<open>Notions used in the statements\<close>

text \<open>
  The longest chunk the assembler can emit: an accumulator that starts with an overlap tail
  of at most \<open>max overlap (int(1.5 * overlap) - 2)\<close> characters, the separator of two line
  feeds, and a section of at most \<open>chunk_size\<close> characters.
\<close>

definition chunk_bound :: "int \<Rightarrow> int \<Rightarrow> int" where
  "chunk_bound chunk_size overlap = chunk_size + max overlap (int_times_1_5 overlap - 2) + 2"








text \<open>
  The window of \<open>_get_overlap_text\<close>: the last \<open>int(1.5 * overlap)\<close> characters of the
  chunk. A sentence boundary at position \<open>p\<close> of a window is an occurrence there of a text
  \<open>g\<close> made of one of \<open>. ! ?\<close>, one or more whitespace characters and a capital letter
  \<open>A-Z\<close>: a match of the pattern \<open>[.!?]\s+[A-Z]\<close>. The first boundary is the left-most.
\<close>

definition overlap_window :: "string \<Rightarrow> int \<Rightarrow> string" where
  "overlap_window t overlap = drop (length t - nat (int_times_1_5 overlap)) t"

definition boundary_at :: "string \<Rightarrow> nat \<Rightarrow> string \<Rightarrow> bool" where
  "boundary_at area p g =
     (\<exists>c ws u. g = c # ws @ [u] \<and> is_sentence_end c \<and> ws \<noteq> [] \<and> (\<forall>x \<in> set ws. is_space x)
        \<and> is_upper_AZ u \<and> occurs_at area g p)"

definition first_boundary :: "string \<Rightarrow> nat \<Rightarrow> string \<Rightarrow> bool" where
  "first_boundary area p g = (boundary_at area p g \<and> (\<forall>p' < p. \<forall>g'. \<not> boundary_at area p' g'))"

text \<open>
  The overlap tail as the specification words it, to compare with \<open>get_overlap_text\<close>:
  the boundary is a full stop, a space and a capital letter, and the tail starts just after
  the first boundary of the window.
\<close>

fun spec_boundary_pos :: "string \<Rightarrow> nat option" where
  "spec_boundary_pos [] = None"
| "spec_boundary_pos (c # rest) =
     (if c = CHR ''.'' \<and> (case rest of sp # u # _ \<Rightarrow> sp = CHR '' '' \<and> is_upper_AZ u | _ \<Rightarrow> False)
      then Some 0
      else map_option Suc (spec_boundary_pos rest))"

definition spec_overlap_tail :: "string \<Rightarrow> int \<Rightarrow> string" where
  "spec_overlap_tail t overlap =
     (case spec_boundary_pos (overlap_window t overlap) of
        Some p \<Rightarrow> drop (p + 2) (overlap_window t overlap)
      | None \<Rightarrow> drop (length t - nat overlap) t)"


text \<open>
  An arithmetic for the examples: it does not round, and an operation on an infinity or a
  NaN gives a NaN. On the numbers of the examples, which are 0 and 1, it computes what
  double precision arithmetic computes.
\<close>

fun num_value :: "pynum \<Rightarrow> real option" where
  "num_value (PInt i) = Some (real_of_int i)"
| "num_value (PFloat (Finite x)) = Some x"
| "num_value (PFloat _) = None"

fun exact_float :: "(real \<Rightarrow> real \<Rightarrow> real) \<Rightarrow> pynum \<Rightarrow> pynum \<Rightarrow> pyfloat" where
  "exact_float f a b =
     (case num_value a of
        None \<Rightarrow> NaN
      | Some x \<Rightarrow> (case num_value b of None \<Rightarrow> NaN | Some y \<Rightarrow> Finite (f x y)))"

fun exact_mul :: "pynum \<Rightarrow> pynum \<Rightarrow> pynum" where
  "exact_mul (PInt i) (PInt j) = PInt (i * j)"
| "exact_mul a b = PFloat (exact_float (\<lambda>x y. x * y) a b)"

fun exact_add :: "pynum \<Rightarrow> pynum \<Rightarrow> pynum" where
  "exact_add (PInt i) (PInt j) = PInt (i + j)"
| "exact_add a b = PFloat (exact_float (\<lambda>x y. x + y) a b)"

definition exact_sqrt :: "pynum \<Rightarrow> error + pyfloat" where
  "exact_sqrt a =
     (case num_value a of
        None \<Rightarrow> Inr NaN
      | Some x \<Rightarrow> if x < 0 then Inl ValueError else Inr (Finite (sqrt x)))"

definition exact_truediv :: "pynum \<Rightarrow> pynum \<Rightarrow> error + pyfloat" where
  "exact_truediv a b =
     (if num_value b = Some 0 then Inl ZeroDivisionError
      else Inr (exact_float (\<lambda>x y. x / y) a b))"

definition exact_arith :: py_arith where
  "exact_arith = \<lparr>py_sum = (\<lambda>xs. Inr (foldl exact_add (PInt 0) xs)),
                    py_mul = (\<lambda>a b. Inr (exact_mul a b)),
                    math_sqrt = exact_sqrt,
                    py_truediv = exact_truediv\<rparr>"



text \<open>
  Two more capabilities for the examples: one whose HTTP client raises on every request,
  and one that answers every embedding request with a single vector.
\<close>

definition failing_env :: env where
  "failing_env = \<lparr>GROQ_API_KEY = ''key'', http_post = (\<lambda>w c. Inl ''timed out''),
                   json_loads = (\<lambda>s. None), arith = exact_arith\<rparr>"

definition one_vector_env :: env where
  "one_vector_env = \<lparr>GROQ_API_KEY = ''key'',
     http_post = (\<lambda>w c. Inr \<lparr>status_code = 200, body_text = [],
        body_json = Some (JObj [(''data'', JArr [JObj [(''embedding'', JArr [JNum 1, JNum 0])]])])\<rparr>),
     json_loads = (\<lambda>s. None), arith = exact_arith\<rparr>"


text \<open>
  The order of the ranking on pairs of an index and a score: a higher score first, and the
  lower index first among equal scores. The capability of the last example answers every
  embedding request with the same four vectors.
\<close>

definition ranked_before :: "nat \<times> pyfloat \<Rightarrow> nat \<times> pyfloat \<Rightarrow> bool" where
  "ranked_before x y = (float_less (snd y) (snd x) \<or> (snd x = snd y \<and> fst x < fst y))"

definition four_vectors_env :: env where
  "four_vectors_env = \<lparr>GROQ_API_KEY = ''key'',
     http_post = (\<lambda>w c. Inr \<lparr>status_code = 200, body_text = [],
        body_json = Some (JObj [(''data'', JArr
          [JObj [(''embedding'', JArr [JNum 1, JNum 0])],
           JObj [(''embedding'', JArr [JNum 0, JNum 1])],
           JObj [(''embedding'', JArr [JNum 1, JNum 0])],
           JObj [(''embedding'', JArr [JNum 1, JNum 0])]])])\<rparr>),
     json_loads = (\<lambda>s. None), arith = exact_arith\<rparr>"

text \<open>
  The arithmetic of one more example: what a double precision interpreter computes on the
  vectors \<open>[1.0, 1.0]\<close> and \<open>[3.0, 3.0]\<close> with the query vector \<open>[1.0, 1.0]\<close>. Four of the
  operations round: the roots of 2 and of 18, the product of the root of 2 with itself, and
  the quotient of 2 by that product. The product of the two other roots is rounded to 6.
  Every other operation of the example is exact. The two chunk vectors point in the
  direction of the query vector, and their computed similarities differ.
\<close>

definition root_2 :: real where
  "root_2 = 6369051672525773 / 4503599627370496"

definition root_18 :: real where
  "root_18 = 4776788754394329 / 1125899906842624"

definition root_2_squared :: real where
  "root_2_squared = 4503599627370497 / 2251799813685248"

definition double_mul :: "pynum \<Rightarrow> pynum \<Rightarrow> pynum" where
  "double_mul a b =
     (if a = PFloat (Finite root_2) \<and> b = PFloat (Finite root_2) then PFloat (Finite root_2_squared)
      else if a = PFloat (Finite root_18) \<and> b = PFloat (Finite root_2) then PFloat (Finite 6)
      else exact_mul a b)"

definition double_sqrt :: "pynum \<Rightarrow> error + pyfloat" where
  "double_sqrt a =
     (if num_value a = Some 2 then Inr (Finite root_2)
      else if num_value a = Some 18 then Inr (Finite root_18)
      else exact_sqrt a)"

definition double_truediv :: "pynum \<Rightarrow> pynum \<Rightarrow> error + pyfloat" where
  "double_truediv a b =
     (if num_value a = Some 2 \<and> b = PFloat (Finite root_2_squared)
      then Inr (Finite (4503599627370495 / 4503599627370496))
      else exact_truediv a b)"

definition double_arith :: py_arith where
  "double_arith = \<lparr>py_sum = (\<lambda>xs. Inr (foldl exact_add (PInt 0) xs)),
                     py_mul = (\<lambda>a b. Inr (double_mul a b)),
                     math_sqrt = double_sqrt,
                     py_truediv = double_truediv\<rparr>"

definition parallel_vectors_env :: env where
  "parallel_vectors_env = \<lparr>GROQ_API_KEY = ''key'',
     http_post = (\<lambda>w c. Inr \<lparr>status_code = 200, body_text = [],
        body_json = Some (JObj [(''data'', JArr
          [JObj [(''embedding'', JArr [JNum 1, JNum 1])],
           JObj [(''embedding'', JArr [JNum 3, JNum 3])],
           JObj [(''embedding'', JArr [JNum 1, JNum 1])]])])\<rparr>),
     json_loads = (\<lambda>s. None), arith = double_arith\<rparr>"

text \<open>
  A capability for the summaries: every extraction request is answered with one finding,
  every summary request with \<open>" About rent. "\<close> and the synthesis request with a report
  that holds only a summary.
\<close>

definition chat_response :: "string \<Rightarrow> http_response" where
  "chat_response answer = \<lparr>status_code = 200, body_text = [],
     body_json = Some (JObj [(''choices'',
       JArr [JObj [(''message'', JObj [(''content'', JStr answer)])]])])\<rparr>"

definition rent_clause :: json where
  "rent_clause = JObj [(''clauseText'', JStr ''Pay rent.''), (''riskLevel'', JStr ''Low'')]"

definition lease_env :: env where
  "lease_env = \<lparr>GROQ_API_KEY = ''key'',
     http_post = (\<lambda>w c. case c of
         ChatCall (AnalyzeChunkPrompt r ch) \<Rightarrow> Inr (chat_response ''A'')
       | ChatCall (SynthesizePrompt r ctx) \<Rightarrow> Inr (chat_response ''S'')
       | ChatCall (SummarizePrompt r i ch ctx) \<Rightarrow> Inr (chat_response '' About rent. '')
       | _ \<Rightarrow> Inl ''not used''),
     json_loads = (\<lambda>s. if s = ''A'' then Some (JObj [(''clauses'', JArr [rent_clause])])
                        else if s = ''S'' then Some (JObj [(''summary'', JStr ''A lease.'')])
                        else None),
     arith = exact_arith\<rparr>"

section \<open>Facts about slices and the split point\<close>

lemma filter_rev_upt_Nil: "filter P (rev [0..<n]) = [] \<longleftrightarrow> (\<forall>i<n. \<not> P i)"
  by (induction n) (auto simp: less_Suc_eq)

lemma filter_rev_upt_Cons:
  "filter P (rev [0..<n]) = i # rest \<Longrightarrow> P i \<and> i < n \<and> (\<forall>j<n. P j \<longrightarrow> j \<le> i)"
proof (induction n arbitrary: i rest)
  case 0
  then show ?case by simp
next
  case (Suc n)
  show ?case
  proof (cases "P n")
    case True
    with Suc.prems have "i = n" by simp
    with True show ?thesis by auto
  next
    case False
    with Suc.prems have "filter P (rev [0..<n]) = i # rest" by simp
    from Suc.IH [OF this] False show ?thesis
      by (auto simp: less_Suc_eq)
  qed
qed

lemma rfind_cases:
  "(rfind s sub = - 1 \<and> (\<forall>i. \<not> occurs_at s sub i))
   \<or> (0 \<le> rfind s sub \<and> occurs_at s sub (nat (rfind s sub))
       \<and> (\<forall>j. occurs_at s sub j \<longrightarrow> int j \<le> rfind s sub))"
proof (cases "filter (occurs_at s sub) (rev [0..<Suc (length s)])")
  case Nil
  then have "\<forall>i<Suc (length s). \<not> occurs_at s sub i"
    by (simp only: filter_rev_upt_Nil)
  moreover have "\<And>i. occurs_at s sub i \<Longrightarrow> i < Suc (length s)"
    by (simp add: occurs_at_def)
  ultimately have "\<forall>i. \<not> occurs_at s sub i" by blast
  moreover have "rfind s sub = - 1" using Nil by (simp add: rfind_def)
  ultimately show ?thesis by blast
next
  case (Cons i rest)
  from filter_rev_upt_Cons [OF Cons]
  have a: "occurs_at s sub i" and b: "\<forall>j<Suc (length s). occurs_at s sub j \<longrightarrow> j \<le> i"
    by blast+
  have c: "\<And>j. occurs_at s sub j \<Longrightarrow> j < Suc (length s)"
    by (simp add: occurs_at_def)
  have "rfind s sub = int i" using Cons by (simp add: rfind_def)
  with a b c show ?thesis by auto
qed

lemma rfind_upper: "sub \<noteq> [] \<Longrightarrow> rfind s sub \<le> int (length s) - 1"
  using rfind_cases [of s sub]
  by (cases sub) (auto simp: occurs_at_def)

lemma rfind_lower: "- 1 \<le> rfind s sub"
  using rfind_cases [of s sub] by auto

lemma length_py_slice: "0 \<le> a \<Longrightarrow> 0 \<le> b \<Longrightarrow> int (length (py_slice xs a b)) \<le> max 0 (b - a)"
  by (auto simp: py_slice_def py_index_def Let_def min_def max_def)

lemma length_py_slice_le: "length (py_slice xs a b) \<le> length xs"
  by (auto simp: py_slice_def py_index_def Let_def)

lemma split_end_lower:
  "0 \<le> overlap \<Longrightarrow> start + chunk_size - overlap \<le> split_end section chunk_size overlap start"
proof -
  assume ov: "0 \<le> overlap"
  let ?area = "py_slice section (start + chunk_size - overlap) (start + chunk_size + overlap)"
  let ?cands = "filter (\<lambda>c. c \<noteq> - 1)
               [rfind ?area [LF, LF], rfind ?area [LF], rfind ?area ''. '', rfind ?area '', '']"
  have "\<forall>c \<in> set ?cands. 0 \<le> c"
    using rfind_lower [of "?area" "[LF, LF]"] rfind_lower [of "?area" "[LF]"]
      rfind_lower [of "?area" "''. ''"] rfind_lower [of "?area" "'', ''"]
    by auto
  moreover have "?cands \<noteq> [] \<Longrightarrow> Max (set ?cands) \<in> set ?cands"
    by (rule Max_in) auto
  ultimately have "?cands \<noteq> [] \<Longrightarrow> 0 \<le> Max (set ?cands)" by blast
  then show ?thesis using ov
    by (simp add: split_end_def Let_def del: set_filter filter.simps)
qed

lemma split_end_upper:
  assumes "0 \<le> overlap" "0 \<le> start + chunk_size - overlap"
  shows "split_end section chunk_size overlap start \<le> start + chunk_size + overlap"
proof -
  let ?area = "py_slice section (start + chunk_size - overlap) (start + chunk_size + overlap)"
  let ?cands = "filter (\<lambda>c. c \<noteq> - 1)
               [rfind ?area [LF, LF], rfind ?area [LF], rfind ?area ''. '', rfind ?area '', '']"
  have len: "int (length ?area) \<le> 2 * overlap"
    using length_py_slice [OF assms(2), of "start + chunk_size + overlap" "section"] assms
    by simp
  have "\<forall>c \<in> set ?cands. c \<le> 2 * overlap"
    using rfind_upper [of "[LF, LF]" "?area"] rfind_upper [of "[LF]" "?area"]
      rfind_upper [of "''. ''" "?area"] rfind_upper [of "'', ''" "?area"] len
    by auto
  moreover have "?cands \<noteq> [] \<Longrightarrow> Max (set ?cands) \<in> set ?cands"
    by (rule Max_in) auto
  ultimately have "?cands \<noteq> [] \<Longrightarrow> Max (set ?cands) \<le> 2 * overlap" by blast
  then show ?thesis using assms
    by (simp add: split_end_def Let_def del: set_filter filter.simps)
qed


section \<open>Facts about strip and the splitting loop\<close>

lemma rstrip_prefix: "\<exists>ws. s = rstrip s @ ws"
proof -
  have "rev (dropWhile is_space (rev s)) @ rev (takeWhile is_space (rev s))
        = rev (takeWhile is_space (rev s) @ dropWhile is_space (rev s))"
    by (simp only: rev_append)
  also have "\<dots> = s" by (simp only: takeWhile_dropWhile_id rev_rev_ident)
  finally have "s = rstrip s @ rev (takeWhile is_space (rev s))"
    by (simp only: rstrip_def)
  then show ?thesis ..
qed

lemma length_rstrip: "length (rstrip s) \<le> length s"
  by (simp add: rstrip_def) (metis length_dropWhile_le length_rev)

lemma length_strip: "length (strip s) \<le> length s"
proof -
  have "length (strip s) \<le> length (lstrip s)"
    by (simp add: strip_def length_rstrip)
  also have "\<dots> \<le> length s" by (simp add: lstrip_def length_dropWhile_le)
  finally show ?thesis .
qed

lemma strip_nonempty:
  assumes "s \<noteq> []" "\<not> is_space (hd s)"
  shows "strip s \<noteq> []"
proof -
  from assms have l: "lstrip s = s" by (cases s) (simp_all add: lstrip_def)
  have "hd s \<in> set (rev s)" using assms(1) by simp
  with assms(2) have "dropWhile is_space (rev s) \<noteq> []"
    by (auto simp: dropWhile_eq_Nil_conv)
  then show ?thesis by (simp add: strip_def l rstrip_def)
qed

lemma hd_strip:
  assumes "strip s \<noteq> []"
  shows "\<not> is_space (hd (strip s))"
proof -
  let ?q = "lstrip s"
  obtain ws where q: "?q = rstrip ?q @ ws" using rstrip_prefix by blast
  from assms have ne: "rstrip ?q \<noteq> []" by (simp add: strip_def)
  then have "?q \<noteq> []" by (auto simp: rstrip_def)
  then have "\<not> is_space (hd ?q)" unfolding lstrip_def by (rule hd_dropWhile)
  moreover have "hd ?q = hd (rstrip ?q)" using q ne by (metis hd_append2)
  ultimately show ?thesis by (simp add: strip_def)
qed

lemma split_loop_prefix:
  assumes "split_loop s cs ov start chunks = Some r"
  shows "\<exists>more. r = chunks @ more"
proof (rule split_loop.raw_induct
    [where P = "\<lambda>s cs ov start chunks r. \<exists>more. r = chunks @ more", OF _ assms], goal_cases)
  case (1 f s cs ov start chunks r)
  show ?case
  proof (cases "start < int (length s)")
    case True
    with 1(2) have "f s cs ov (split_end s cs ov start - ov)
        (split_append chunks (strip (py_slice s start (split_end s cs ov start)))) = Some r"
      by simp
    from 1(1) [OF this] obtain more where
      "r = split_append chunks (strip (py_slice s start (split_end s cs ov start))) @ more"
      by blast
    then show ?thesis by (auto simp: split_append_def split: if_splits)
  next
    case False
    with 1(2) show ?thesis by simp
  qed
qed

lemma split_loop_terminates:
  assumes "0 \<le> ov" "2 * ov < cs"
  shows "\<exists>r. split_loop s cs ov start chunks = Some r"
proof (induction "nat (int (length s) - start)" arbitrary: start chunks rule: less_induct)
  case less
  show ?case
  proof (cases "start < int (length s)")
    case False
    then show ?thesis by (subst split_loop.simps) simp
  next
    case True
    let ?e = "split_end s cs ov start"
    have "start + cs - ov \<le> ?e" using assms(1) by (rule split_end_lower)
    with assms have adv: "start < ?e - ov" by simp
    with True have "nat (int (length s) - (?e - ov)) < nat (int (length s) - start)" by simp
    from less [OF this] obtain r where
      "split_loop s cs ov (?e - ov) (split_append chunks (strip (py_slice s start ?e))) = Some r"
      by blast
    with True show ?thesis by (subst split_loop.simps) simp
  qed
qed


section \<open>Termination of the assembler\<close>

lemma split_loop_bound:
  assumes "split_loop s cs ov start chunks = Some r"
  shows "0 \<le> ov \<longrightarrow> 2 * ov < cs \<longrightarrow> 0 \<le> start \<longrightarrow>
         (\<forall>c \<in> set chunks. int (length c) \<le> cs + ov) \<longrightarrow>
         (\<forall>c \<in> set r. int (length c) \<le> cs + ov)"
proof (rule split_loop.raw_induct
    [where P = "\<lambda>s cs ov start chunks r. 0 \<le> ov \<longrightarrow> 2 * ov < cs \<longrightarrow> 0 \<le> start \<longrightarrow>
         (\<forall>c \<in> set chunks. int (length c) \<le> cs + ov) \<longrightarrow>
         (\<forall>c \<in> set r. int (length c) \<le> cs + ov)", OF _ assms], goal_cases)
  case (1 f s cs ov start chunks r)
  show ?case
  proof (intro impI)
    assume ov: "0 \<le> ov" and cs: "2 * ov < cs" and st: "0 \<le> start"
      and ch: "\<forall>c \<in> set chunks. int (length c) \<le> cs + ov"
    show "\<forall>c \<in> set r. int (length c) \<le> cs + ov"
    proof (cases "start < int (length s)")
      case False
      with 1(2) ch show ?thesis by simp
    next
      case True
      let ?e = "split_end s cs ov start"
      let ?c = "strip (py_slice s start ?e)"
      have lo: "start + cs - ov \<le> ?e" using ov by (rule split_end_lower)
      have up: "?e \<le> start + cs + ov" using ov st cs by (intro split_end_upper) simp_all
      have "int (length (py_slice s start ?e)) \<le> max 0 (?e - start)"
        using st lo ov cs by (intro length_py_slice) simp_all
      with up have "int (length (py_slice s start ?e)) \<le> cs + ov" using ov cs by simp
      moreover have "length ?c \<le> length (py_slice s start ?e)" by (rule length_strip)
      ultimately have c: "int (length ?c) \<le> cs + ov" by simp
      have ch': "\<forall>c \<in> set (split_append chunks ?c). int (length c) \<le> cs + ov"
        using ch c by (simp add: split_append_def)
      from True 1(2) have "f s cs ov (?e - ov) (split_append chunks ?c) = Some r" by simp
      from 1(1) [OF this] ov cs st lo ch' show ?thesis by simp
    qed
  qed
qed

lemma split_large_section_nonempty:
  assumes "0 \<le> ov" "2 * ov < cs" "s \<noteq> []" "\<not> is_space (hd s)"
  shows "\<exists>c0 more. split_large_section s cs ov = Some (c0 # more)"
proof -
  let ?e = "split_end s cs ov 0"
  let ?c = "strip (py_slice s 0 ?e)"
  have lo: "0 + cs - ov \<le> ?e" using assms(1) by (rule split_end_lower)
  with assms have pos: "0 < ?e" by simp
  then have sl: "py_slice s 0 ?e = take (min (length s) (nat ?e)) s"
    by (simp add: py_slice_def py_index_def Let_def)
  have ne: "py_slice s 0 ?e \<noteq> []" using pos assms(3) by (simp add: sl)
  have "0 < min (length s) (nat ?e)" using pos assms(3) by simp
  then have "hd (take (min (length s) (nat ?e)) s) = hd s" by (rule hd_take)
  then have "hd (py_slice s 0 ?e) = hd s" by (simp only: sl)
  with assms(4) ne have "?c \<noteq> []" by (intro strip_nonempty) simp_all
  then have app: "split_append [] ?c = [?c]" by (simp add: split_append_def)
  obtain r where r: "split_loop s cs ov (?e - ov) [?c] = Some r"
    using split_loop_terminates [OF assms(1,2)] by blast
  from split_loop_prefix [OF r] obtain more where "r = ?c # more" by auto
  moreover have "split_large_section s cs ov = split_loop s cs ov (?e - ov) [?c]"
    unfolding split_large_section_def using assms(3) app
    by (subst split_loop.simps) simp
  ultimately show ?thesis using r by simp
qed

lemma split_large_section_bound:
  assumes "split_large_section s cs ov = Some r" "0 \<le> ov" "2 * ov < cs"
  shows "\<forall>c \<in> set r. int (length c) \<le> cs + ov"
  using split_loop_bound [OF assms(1) [unfolded split_large_section_def]] assms(2,3)
  by simp

lemma parse_contents:
  "\<forall>sec \<in> set (parse_with_regex text). content sec \<noteq> [] \<and> \<not> is_space (hd (content sec))"
proof -
  have c: "\<And>t. content (classify t) = t" by (simp add: classify_def)
  show ?thesis
    by (auto simp: parse_with_regex_def c hd_strip)
qed

lemma sections_loop_terminates:
  assumes "0 \<le> ov" "2 * ov < cs"
  shows "\<forall>sec \<in> set secs. content sec \<noteq> [] \<and> \<not> is_space (hd (content sec)) \<Longrightarrow>
         \<exists>r. sections_loop secs cs ov st = Some (Inr r)"
proof (induction secs arbitrary: st)
  case Nil
  then show ?case by (cases st) simp
next
  case (Cons sec secs)
  obtain chunks current where st: "st = (chunks, current)" by (cases st)
  obtain chunks1 current1 where p: "pack_section (content sec) cs ov (chunks, current) = (chunks1, current1)"
    by (cases "pack_section (content sec) cs ov (chunks, current)")
  from Cons.prems have rest: "\<forall>sec \<in> set secs. content sec \<noteq> [] \<and> \<not> is_space (hd (content sec))"
    and hd: "content sec \<noteq> []" "\<not> is_space (hd (content sec))" by simp_all
  show ?case
  proof (cases "int (length (content sec)) > cs")
    case True
    from split_large_section_nonempty [OF assms hd] obtain c0 more where
      "split_large_section (content sec) cs ov = Some (c0 # more)" by blast
    with True p st Cons.IH [OF rest, of "(chunks1 @ more, c0)"] show ?thesis by simp
  next
    case False
    with p st Cons.IH [OF rest, of "(chunks1, current1)"] show ?thesis by simp
  qed
qed


section \<open>The length of the overlap tail\<close>

lemma py_index_le: "py_index n i \<le> n"
  unfolding py_index_def by (cases "i < 0") (auto simp: max_def)

lemma match_sentence_at_shape:
  "match_sentence_at s = Some g \<Longrightarrow>
   \<exists>c ws u. g = c # ws @ [u] \<and> ws \<noteq> [] \<and> (\<forall>x \<in> set ws. is_space x) \<and> occurs_at s g 0"
proof (cases s)
  case Nil
  assume "match_sentence_at s = Some g"
  with Nil show ?thesis by simp
next
  case (Cons c rest)
  assume m: "match_sentence_at s = Some g"
  let ?ws = "takeWhile is_space rest"
  from m Cons obtain u tl where d: "dropWhile is_space rest = u # tl" and g: "g = c # ?ws @ [u]"
    and ne: "?ws \<noteq> []"
    by (auto split: if_splits list.splits)
  have "rest = ?ws @ u # tl" using d by (metis takeWhile_dropWhile_id)
  then have "s = g @ tl" using Cons g by simp
  then have "occurs_at s g 0" by (simp add: occurs_at_def)
  moreover have "\<forall>x \<in> set ?ws. is_space x" by (auto dest: set_takeWhileD)
  ultimately show ?thesis using g ne by blast
qed

lemma occurs_at_Cons: "occurs_at s g p \<Longrightarrow> occurs_at (c # s) g (Suc p)"
  by (simp add: occurs_at_def)

lemma search_sentence_shape:
  "search_sentence s = Some g \<Longrightarrow>
   \<exists>c ws u p. g = c # ws @ [u] \<and> ws \<noteq> [] \<and> (\<forall>x \<in> set ws. is_space x) \<and> occurs_at s g p"
proof (induction s)
  case Nil
  then show ?case by simp
next
  case (Cons a s)
  show ?case
  proof (cases "match_sentence_at (a # s)")
    case None
    with Cons.prems have "search_sentence s = Some g" by simp
    from Cons.IH [OF this] obtain c ws u p where
      "g = c # ws @ [u]" "ws \<noteq> []" "\<forall>x \<in> set ws. is_space x" "occurs_at s g p" by blast
    then show ?thesis using occurs_at_Cons by blast
  next
    case (Some h)
    with Cons.prems have "h = g" by simp
    with Some match_sentence_at_shape [of "a # s" g] show ?thesis by blast
  qed
qed

lemma occurs_at_drop: "k \<le> length s \<Longrightarrow> occurs_at (drop k s) g p \<Longrightarrow> occurs_at s g (k + p)"
  by (auto simp: occurs_at_def add.commute)

lemma length_strip_space:
  assumes "s = w # rest" "is_space w"
  shows "length (strip s) < length s"
proof -
  have "length (strip s) \<le> length (lstrip s)" by (simp add: strip_def length_rstrip)
  also have "lstrip s = lstrip rest" using assms by (simp add: lstrip_def)
  also have "length (lstrip rest) \<le> length rest" by (simp add: lstrip_def length_dropWhile_le)
  finally show ?thesis using assms(1) by simp
qed

text \<open>The longest overlap tail: \<open>max overlap (int(1.5 * overlap) - 2)\<close>.\<close>

lemma length_get_overlap_text:
  assumes "1 \<le> ov"
  shows "int (length (get_overlap_text t ov)) \<le> max ov (int_times_1_5 ov - 2)"
proof (cases "int (length t) \<le> ov")
  case True
  then show ?thesis by (simp add: get_overlap_text_def)
next
  case False
  let ?k = "int_times_1_5 ov"
  let ?n = "length t"
  let ?lo = "py_index ?n (- ?k)"
  let ?area = "py_slice_from t (- ?k)"
  have k: "1 \<le> ?k" using assms by (simp add: int_times_1_5_def)
  have area: "?area = drop ?lo t" by (simp add: py_slice_from_def)
  have lo: "int ?n - ?k \<le> int ?lo" using k by (simp add: py_index_def)
  show ?thesis
  proof (cases "search_sentence ?area")
    case None
    then have "get_overlap_text t ov = py_slice_from t (- ov)"
      using False by (simp add: get_overlap_text_def)
    moreover have "int (length (py_slice_from t (- ov))) \<le> ov"
      using assms False by (simp add: py_slice_from_def py_index_def)
    ultimately show ?thesis by simp
  next
    case (Some g)
    then obtain c ws u p where g: "g = c # ws @ [u]" and ws: "ws \<noteq> []" "\<forall>x \<in> set ws. is_space x"
      and occ: "occurs_at ?area g p"
      using search_sentence_shape by blast
    have "?lo \<le> ?n" by (rule py_index_le)
    from this occ have occ_t: "occurs_at t g (?lo + p)" unfolding area by (rule occurs_at_drop)
    let ?q = "rfind t g"
    from rfind_cases [of t g] occ_t
    have q0: "0 \<le> ?q" and qocc: "occurs_at t g (nat ?q)" and qmax: "int (?lo + p) \<le> ?q"
      by auto
    let ?tail = "py_slice_from t (?q + 1)"
    have tail: "?tail = drop (Suc (nat ?q)) t"
      using q0 qocc by (simp add: py_slice_from_def py_index_def occurs_at_def g nat_add_distrib)
    from qocc have tk: "take (length g) (drop (nat ?q) t) = g" and le: "nat ?q + length g \<le> ?n"
      by (simp_all add: occurs_at_def)
    obtain w ws' where wsc: "ws = w # ws'" using ws(1) by (cases ws) auto
    have "drop (nat ?q) t = g @ drop (length g) (drop (nat ?q) t)"
      using tk by (metis append_take_drop_id)
    then have "drop (Suc (nat ?q)) t = tl (g @ drop (length g) (drop (nat ?q) t))"
      by (metis drop_Suc tl_drop)
    then have "drop (Suc (nat ?q)) t = w # (ws' @ [u] @ drop (length g) (drop (nat ?q) t))"
      using g wsc by simp
    moreover have "is_space w" using ws(2) wsc by simp
    ultimately have "length (strip ?tail) < length ?tail"
      unfolding tail by (rule length_strip_space)
    moreover have "int (length ?tail) \<le> ?k - 1"
    proof -
      have "int (nat ?q) = ?q" using q0 by simp
      moreover have "Suc (nat ?q) \<le> ?n" using le g by simp
      ultimately have "int (length ?tail) = int ?n - ?q - 1" unfolding tail by simp
      with qmax lo show ?thesis by simp
    qed
    moreover have "get_overlap_text t ov = strip ?tail"
      using False Some by (simp add: get_overlap_text_def)
    ultimately show ?thesis by simp
  qed
qed


section \<open>The sentence search finds the first boundary\<close>

lemma upper_not_space: "is_upper_AZ u \<Longrightarrow> \<not> is_space u"
  by (auto simp: is_upper_AZ_def is_space_def)

lemma match_sentence_at_iff: "match_sentence_at s = Some g \<longleftrightarrow> boundary_at s 0 g"
proof
  assume m: "match_sentence_at s = Some g"
  show "boundary_at s 0 g"
  proof (cases s)
    case Nil
    with m show ?thesis by simp
  next
    case (Cons c rest)
    let ?ws = "takeWhile is_space rest"
    from m Cons obtain u tl where d: "dropWhile is_space rest = u # tl" and g: "g = c # ?ws @ [u]"
      and ne: "?ws \<noteq> []" and c: "is_sentence_end c" and u: "is_upper_AZ u"
      by (auto split: if_splits list.splits)
    have "rest = ?ws @ u # tl" using d by (metis takeWhile_dropWhile_id)
    then have "s = g @ tl" using Cons g by simp
    then have "occurs_at s g 0" by (simp add: occurs_at_def)
    moreover have "\<forall>x \<in> set ?ws. is_space x" by (auto dest: set_takeWhileD)
    ultimately show ?thesis unfolding boundary_at_def using g ne c u by blast
  qed
next
  assume "boundary_at s 0 g"
  then obtain c ws u where g: "g = c # ws @ [u]" and c: "is_sentence_end c" and ne: "ws \<noteq> []"
    and ws: "\<forall>x \<in> set ws. is_space x" and u: "is_upper_AZ u" and occ: "occurs_at s g 0"
    unfolding boundary_at_def by blast
  from occ have "take (length g) s = g" by (simp add: occurs_at_def)
  then have "s = g @ drop (length g) s" by (metis append_take_drop_id)
  then obtain tl where s: "s = c # (ws @ u # tl)" using g by (metis append_Cons append_assoc append_Nil)
  have nu: "\<not> is_space u" using u by (rule upper_not_space)
  have tw: "takeWhile is_space (ws @ u # tl) = ws" using ws nu by (simp add: takeWhile_append2)
  have dw: "dropWhile is_space (ws @ u # tl) = u # tl" using ws nu by (simp add: dropWhile_append2)
  show "match_sentence_at s = Some g"
    by (simp add: s tw dw c ne u g)
qed

lemma boundary_at_Suc: "boundary_at (a # s) (Suc p) g \<longleftrightarrow> boundary_at s p g"
  by (simp add: boundary_at_def occurs_at_def)

lemma boundary_at_Nil: "\<not> boundary_at [] p g"
  by (auto simp: boundary_at_def occurs_at_def)

lemma search_sentence_None: "search_sentence s = None \<longleftrightarrow> (\<forall>p g. \<not> boundary_at s p g)"
proof (induction s)
  case Nil
  show ?case by (simp add: boundary_at_Nil)
next
  case (Cons a s)
  show ?case
  proof (cases "match_sentence_at (a # s)")
    case None
    then have no0: "\<forall>g. \<not> boundary_at (a # s) 0 g"
      by (metis match_sentence_at_iff option.distinct(1))
    have "(\<forall>p g. \<not> boundary_at (a # s) p g) \<longleftrightarrow> (\<forall>p g. \<not> boundary_at s p g)"
    proof
      assume "\<forall>p g. \<not> boundary_at (a # s) p g"
      then show "\<forall>p g. \<not> boundary_at s p g" using boundary_at_Suc by blast
    next
      assume h: "\<forall>p g. \<not> boundary_at s p g"
      show "\<forall>p g. \<not> boundary_at (a # s) p g"
      proof (intro allI)
        fix p g
        show "\<not> boundary_at (a # s) p g"
          using no0 h boundary_at_Suc by (cases p) auto
      qed
    qed
    with None Cons.IH show ?thesis by simp
  next
    case (Some h)
    then have "boundary_at (a # s) 0 h" by (simp only: match_sentence_at_iff)
    with Some show ?thesis by auto
  qed
qed

lemma search_sentence_Some: "search_sentence s = Some g \<longleftrightarrow> (\<exists>p. first_boundary s p g)"
proof (induction s)
  case Nil
  show ?case by (simp add: first_boundary_def boundary_at_Nil)
next
  case (Cons a s)
  show ?case
  proof (cases "match_sentence_at (a # s)")
    case (Some h)
    then have b0: "boundary_at (a # s) 0 h" by (simp only: match_sentence_at_iff)
    have "(\<exists>p. first_boundary (a # s) p g) \<longleftrightarrow> h = g"
    proof
      assume "\<exists>p. first_boundary (a # s) p g"
      then obtain p where fb: "first_boundary (a # s) p g" by blast
      have "p = 0"
      proof (rule ccontr)
        assume "p \<noteq> 0"
        then have "0 < p" by simp
        with fb b0 show False by (auto simp: first_boundary_def)
      qed
      with fb have "boundary_at (a # s) 0 g" by (simp add: first_boundary_def)
      then have "match_sentence_at (a # s) = Some g" by (simp only: match_sentence_at_iff)
      with Some show "h = g" by simp
    next
      assume "h = g"
      with b0 have "first_boundary (a # s) 0 g" by (simp add: first_boundary_def)
      then show "\<exists>p. first_boundary (a # s) p g" ..
    qed
    with Some show ?thesis by simp
  next
    case None
    then have no0: "\<forall>g. \<not> boundary_at (a # s) 0 g"
      by (metis match_sentence_at_iff option.distinct(1))
    have "(\<exists>p. first_boundary (a # s) p g) \<longleftrightarrow> (\<exists>p. first_boundary s p g)"
    proof
      assume "\<exists>p. first_boundary (a # s) p g"
      then obtain p where fb: "first_boundary (a # s) p g" by blast
      with no0 obtain q where p: "p = Suc q" by (cases p) (auto simp: first_boundary_def)
      from fb have "boundary_at s q g" by (simp add: p first_boundary_def boundary_at_Suc)
      moreover have "\<forall>p' < q. \<forall>g'. \<not> boundary_at s p' g'"
      proof (intro allI impI)
        fix p' g'
        assume "p' < q"
        then have "Suc p' < p" by (simp add: p)
        with fb have "\<not> boundary_at (a # s) (Suc p') g'" by (simp add: first_boundary_def)
        then show "\<not> boundary_at s p' g'" by (simp add: boundary_at_Suc)
      qed
      ultimately show "\<exists>p. first_boundary s p g" by (auto simp: first_boundary_def)
    next
      assume "\<exists>p. first_boundary s p g"
      then obtain q where fb: "first_boundary s q g" by blast
      have "boundary_at (a # s) (Suc q) g" using fb by (simp add: first_boundary_def boundary_at_Suc)
      moreover have "\<forall>p' < Suc q. \<forall>g'. \<not> boundary_at (a # s) p' g'"
      proof (intro allI impI)
        fix p' g'
        assume lt: "p' < Suc q"
        show "\<not> boundary_at (a # s) p' g'"
        proof (cases p')
          case 0
          with no0 show ?thesis by simp
        next
          case (Suc r)
          with lt have "r < q" by simp
          with fb have "\<not> boundary_at s r g'" by (simp add: first_boundary_def)
          then show ?thesis by (simp add: Suc boundary_at_Suc)
        qed
      qed
      ultimately show "\<exists>p. first_boundary (a # s) p g" by (auto simp: first_boundary_def)
    qed
    with None Cons.IH show ?thesis by simp
  qed
qed


section \<open>The errors of a generation call\<close>




section \<open>The stable descending sort\<close>

lemma float_less_irrefl: "\<not> float_less a a"
  by (cases a) simp_all

lemma float_less_trans: "float_less a b \<Longrightarrow> float_less b c \<Longrightarrow> float_less a c"
  by (cases a; cases b; cases c) simp_all

lemma float_less_linear: "a \<noteq> NaN \<Longrightarrow> b \<noteq> NaN \<Longrightarrow> float_less a b \<or> a = b \<or> float_less b a"
  by (cases a; cases b) auto

lemma set_insert_desc: "set (insert_desc x ys) = insert x (set ys)"
  by (induction ys) auto

lemma length_insert_desc: "length (insert_desc x ys) = Suc (length ys)"
  by (induction ys) auto

lemma sorted_insert_desc:
  "sorted_wrt ranked_before ys \<Longrightarrow> \<forall>y \<in> set ys. fst x < fst y \<Longrightarrow>
   snd x \<noteq> NaN \<Longrightarrow> \<forall>y \<in> set ys. snd y \<noteq> NaN \<Longrightarrow>
   sorted_wrt ranked_before (insert_desc x ys)"
proof (induction ys)
  case Nil
  then show ?case by simp
next
  case (Cons y ys)
  show ?case
  proof (cases "float_less (snd x) (snd y)")
    case False
    have y: "snd y \<noteq> NaN" using Cons.prems(4) by simp
    from float_less_linear [OF Cons.prems(3) y] False
    have xy: "snd x = snd y \<or> float_less (snd y) (snd x)" by blast
    have "ranked_before x z" if "z \<in> set (y # ys)" for z
    proof -
      have ix: "fst x < fst z" using that Cons.prems(2) by auto
      have "z = y \<or> ranked_before y z" using that Cons.prems(1) by auto
      then have "snd z = snd y \<or> float_less (snd z) (snd y)"
        by (auto simp: ranked_before_def)
      with xy have "snd x = snd z \<or> float_less (snd z) (snd x)"
        by (auto intro: float_less_trans)
      with ix show ?thesis by (auto simp: ranked_before_def)
    qed
    with False Cons.prems(1) show ?thesis by simp
  next
    case True
    then have "ranked_before y x" by (simp add: ranked_before_def)
    moreover have "sorted_wrt ranked_before (insert_desc x ys)"
      using Cons by simp
    ultimately show ?thesis using True Cons.prems(1) by (simp add: set_insert_desc)
  qed
qed

lemma sorted_desc_Cons: "sorted_desc (x # xs) = insert_desc x (sorted_desc xs)"
  by (simp add: sorted_desc_def)

lemma set_sorted_desc: "set (sorted_desc xs) = set xs"
  by (induction xs) (simp_all add: sorted_desc_Cons set_insert_desc, simp add: sorted_desc_def)

lemma length_sorted_desc: "length (sorted_desc xs) = length xs"
  by (induction xs) (simp_all add: sorted_desc_Cons length_insert_desc, simp add: sorted_desc_def)

lemma sorted_sorted_desc:
  "sorted_wrt (\<lambda>a b. fst a < fst b) xs \<Longrightarrow> \<forall>x \<in> set xs. snd x \<noteq> NaN \<Longrightarrow>
   sorted_wrt ranked_before (sorted_desc xs)"
proof (induction xs)
  case Nil
  show ?case by (simp add: sorted_desc_def)
next
  case (Cons x xs)
  then have "sorted_wrt ranked_before (sorted_desc xs)" and "\<forall>y \<in> set xs. fst x < fst y"
    and "snd x \<noteq> NaN" and "\<forall>y \<in> set xs. snd y \<noteq> NaN"
    by simp_all
  then show ?case
    by (simp only: sorted_desc_Cons) (rule sorted_insert_desc, simp_all add: set_sorted_desc)
qed

lemma collect_Inr: "collect f xs = Inr ys \<Longrightarrow> list_all2 (\<lambda>x y. f x = Inr y) xs ys"
  by (induction xs arbitrary: ys) (auto split: sum.splits)

lemma collect_Inr_I: "list_all2 (\<lambda>x y. f x = Inr y) xs ys \<Longrightarrow> collect f xs = Inr ys"
  by (induction xs ys rule: list_all2_induct) auto

section \<open>The ranking is a sorted permutation of the indices\<close>

lemma zip_enumerate: "zip [0..<length xs] xs = map (\<lambda>i. (i, xs ! i)) [0..<length xs]"
  by (rule nth_equalityI) simp_all

lemma sorted_wrt_scored: "sorted_wrt (\<lambda>a b. fst a < fst b) (map (\<lambda>i. (i, g i)) [0..<n])"
  by (simp add: sorted_wrt_map sorted_wrt_iff_nth_less)

lemma ranking_of_scores:
  fixes g :: "nat \<Rightarrow> pyfloat" and n :: nat
  defines "idxs \<equiv> map fst (sorted_desc (map (\<lambda>i. (i, g i)) [0..<n]))"
  assumes nan: "\<forall>i < n. g i \<noteq> NaN"
  shows "distinct idxs \<and> set idxs = {0..<n} \<and> length idxs = n \<and>
         sorted_wrt (\<lambda>i j. float_less (g j) (g i) \<or> (g i = g j \<and> i < j)) idxs"
proof -
  let ?scored = "map (\<lambda>i. (i, g i)) [0..<n]"
  have st: "set (sorted_desc ?scored) = set ?scored" by (rule set_sorted_desc)
  have len: "length idxs = n" by (simp add: idxs_def length_sorted_desc)
  have "set idxs = fst ` set ?scored" by (simp add: idxs_def st)
  also have "\<dots> = {0..<n}" by force
  finally have s: "set idxs = {0..<n}" .
  have "card (set idxs) = length idxs" by (simp add: s len)
  then have d: "distinct idxs" by (rule card_distinct)
  have "\<forall>x \<in> set ?scored. snd x \<noteq> NaN" using nan by auto
  with sorted_wrt_scored [of g n]
  have "sorted_wrt ranked_before (sorted_desc ?scored)"
    by (rule sorted_sorted_desc)
  then have "sorted_wrt (\<lambda>a b. float_less (g (fst b)) (g (fst a)) \<or> (g (fst a) = g (fst b) \<and> fst a < fst b))
               (sorted_desc ?scored)"
  proof (rule sorted_wrt_mono_rel [rotated])
    fix a b
    assume "a \<in> set (sorted_desc ?scored)" "b \<in> set (sorted_desc ?scored)" "ranked_before a b"
    then have "snd a = g (fst a)" "snd b = g (fst b)" "ranked_before a b"
      unfolding st by auto
    then show "float_less (g (fst b)) (g (fst a)) \<or> (g (fst a) = g (fst b) \<and> fst a < fst b)"
      by (simp add: ranked_before_def)
  qed
  then have "sorted_wrt (\<lambda>i j. float_less (g j) (g i) \<or> (g i = g j \<and> i < j)) idxs"
    by (simp add: idxs_def sorted_wrt_map)
  with d s len show ?thesis by blast
qed

section \<open>The loop of the chunk summaries\<close>

lemma py_slice_nth:
  assumes "0 \<le> a" "0 \<le> b" "b \<le> int (length xs)"
  shows "py_slice xs a b = map (\<lambda>j. xs ! j) [nat a..<nat b]"
proof (cases "a \<le> b")
  case True
  with assms have "py_slice xs a b = take (nat b - nat a) (drop (nat a) xs)"
    by (simp add: py_slice_def py_index_def Let_def min_def)
  also have "\<dots> = map (\<lambda>j. xs ! j) [nat a..<nat b]"
  proof (rule nth_equalityI)
    show "length (take (nat b - nat a) (drop (nat a) xs)) = length (map (\<lambda>j. xs ! j) [nat a..<nat b])"
      using assms True by simp
  next
    fix i
    assume "i < length (take (nat b - nat a) (drop (nat a) xs))"
    then have i: "i < nat b - nat a" by simp
    then have "nat a + i < length xs" using assms by simp
    with i show "take (nat b - nat a) (drop (nat a) xs) ! i = map (\<lambda>j. xs ! j) [nat a..<nat b] ! i"
      by simp
  qed
  finally show ?thesis .
next
  case False
  with assms have "py_index (length xs) b - py_index (length xs) a = 0"
    unfolding py_index_def by (cases "length xs \<le> nat a") (simp_all add: min_def, linarith+)
  with False show ?thesis by (simp add: py_slice_def Let_def)
qed

lemma nat_min_int: "nat (min x (int n)) = min (nat x) n"
  by (cases "x \<le> int n") (simp_all add: min_def, linarith+)

lemma chunk_clauses_of_nth:
  assumes "0 \<le> pc"
  shows "chunk_clauses_of clauses pc (int k)
         = map (\<lambda>j. clauses ! j) [k * nat pc..<min ((k + 1) * nat pc) (length clauses)]"
proof -
  have a: "nat (int k * pc) = k * nat pc" using assms by (simp add: nat_mult_distrib)
  have "int k * pc + pc = int (k + 1) * pc" by (simp add: algebra_simps)
  then have "nat (min (int k * pc + pc) (int (length clauses)))
        = min (nat (int (k + 1) * pc)) (length clauses)"
    by (simp only: nat_min_int)
  also have "nat (int (k + 1) * pc) = (k + 1) * nat pc"
    using assms by (simp only: nat_mult_distrib of_nat_0_le_iff nat_int)
  finally have b: "nat (min (int k * pc + pc) (int (length clauses)))
        = min ((k + 1) * nat pc) (length clauses)" .
  have "chunk_clauses_of clauses pc (int k)
        = py_slice clauses (int k * pc) (min (int k * pc + pc) (int (length clauses)))"
    by (simp add: chunk_clauses_of_def Let_def)
  also have "\<dots> = map (\<lambda>j. clauses ! j)
        [nat (int k * pc)..<nat (min (int k * pc + pc) (int (length clauses)))]"
    using assms by (intro py_slice_nth) simp_all
  finally show ?thesis by (simp only: a b)
qed

lemma per_chunk_of_nonneg: "0 \<le> per_chunk_of a b"
proof -
  have "0 \<le> real a / real b" by simp
  then have "- 1 < real a / real b" by linarith
  then have "0 \<le> \<lceil>real a / real b\<rceil>" by (simp only: zero_le_ceiling)
  then show ?thesis by (simp add: per_chunk_of_def)
qed

lemma summaries_loop_shape:
  "summaries_loop env clauses role pc i chunks acc w = (Inr r, w') \<Longrightarrow>
   \<exists>new ctxs. r = acc @ new \<and> length new = length chunks \<and>
     map chunkIndex new = map (\<lambda>k. i + 1 + int k) [0..<length chunks] \<and>
     length ctxs = length chunks \<and>
     (\<forall>k < length chunks.
        collect summary_line (chunk_clauses_of clauses pc (i + int k)) = Inr (ctxs ! k)) \<and>
     w' = w @ map (\<lambda>k. ChatCall (SummarizePrompt role (i + 1 + int k)
                          (py_slice_to (chunks ! k) 500) (ctxs ! k))) [0..<length chunks]"
proof (induction chunks arbitrary: i acc w)
  case Nil
  then show ?case by simp
next
  case (Cons chunk chunks)
  from Cons.prems obtain ctx where ctx: "collect summary_line (chunk_clauses_of clauses pc i) = Inr ctx"
    by (auto split: sum.splits)
  let ?p = "SummarizePrompt role (i + 1) (py_slice_to chunk 500) ctx"
  obtain out w1 where cc: "chat_complete env w ?p = (out, w1)"
    by (cases "chat_complete env w ?p")
  have w1: "w1 = w @ [ChatCall ?p]" using cc by (auto simp: chat_complete_def)
  from Cons.prems ctx cc obtain outv answer where out: "out = Inr outv" "as_str outv = Inr answer"
    by (auto split: sum.splits)
  let ?s = "\<lparr>chunkIndex = i + 1, summary = strip answer\<rparr>"
  from Cons.prems ctx cc out
  have rec: "summaries_loop env clauses role pc (i + 1) chunks (acc @ [?s]) w1 = (Inr r, w')"
    by simp
  from Cons.IH [OF rec] obtain new ctxs where
    r: "r = (acc @ [?s]) @ new" and ln: "length new = length chunks"
    and ix: "map chunkIndex new = map (\<lambda>k. i + 1 + 1 + int k) [0..<length chunks]"
    and lc: "length ctxs = length chunks"
    and cl: "\<forall>k < length chunks.
        collect summary_line (chunk_clauses_of clauses pc (i + 1 + int k)) = Inr (ctxs ! k)"
    and w': "w' = w1 @ map (\<lambda>k. ChatCall (SummarizePrompt role (i + 1 + 1 + int k)
                          (py_slice_to (chunks ! k) 500) (ctxs ! k))) [0..<length chunks]"
    by blast
  let ?new = "?s # new"
  let ?ctxs = "ctx # ctxs"
  have shift: "\<And>f :: nat \<Rightarrow> 'b. map f [0..<Suc (length chunks)] = f 0 # map (\<lambda>k. f (Suc k)) [0..<length chunks]"
    by (simp add: upt_conv_Cons map_Suc_upt [symmetric] del: upt_Suc)
  have A: "r = acc @ ?new" using r by simp
  have B: "length ?new = length (chunk # chunks)" using ln by simp
  have C: "map chunkIndex ?new = map (\<lambda>k. i + 1 + int k) [0..<length (chunk # chunks)]"
    using ix by (simp add: shift add.assoc add.commute del: upt_Suc)
  have D: "length ?ctxs = length (chunk # chunks)" using lc by simp
  have E: "\<forall>k < length (chunk # chunks).
        collect summary_line (chunk_clauses_of clauses pc (i + int k)) = Inr (?ctxs ! k)"
  proof (intro allI impI)
    fix k
    assume k: "k < length (chunk # chunks)"
    show "collect summary_line (chunk_clauses_of clauses pc (i + int k)) = Inr (?ctxs ! k)"
    proof (cases k)
      case 0
      with ctx show ?thesis by simp
    next
      case (Suc m)
      with k have "m < length chunks" by simp
      with cl have "collect summary_line (chunk_clauses_of clauses pc (i + 1 + int m)) = Inr (ctxs ! m)"
        by blast
      moreover have "i + int k = i + 1 + int m" using Suc by simp
      moreover have "?ctxs ! k = ctxs ! m" using Suc by simp
      ultimately show ?thesis by (simp only:)
    qed
  qed
  have F: "w' = w @ map (\<lambda>k. ChatCall (SummarizePrompt role (i + 1 + int k)
                          (py_slice_to ((chunk # chunks) ! k) 500) (?ctxs ! k)))
                    [0..<length (chunk # chunks)]"
    using w' w1 by (simp add: shift add.assoc add.commute del: upt_Suc)
  from A B C D E F show ?case by blast
qed


lemma map_of_dict_set: "map_of (dict_set kvs k v) k = Some v"
proof (cases "k \<in> fst ` set kvs")
  case False
  then have "map_of kvs k = None" by (simp add: map_of_eq_None_iff)
  with False show ?thesis by (simp add: dict_set_def map_add_def)
next
  case True
  have l: "(\<lambda>(k', v'). if k' = k then (k', v) else (k', v'))
           = (\<lambda>kv. if fst kv = k then (k, v) else kv)"
    by (rule ext) (simp add: case_prod_unfold)
  have "map_of (map (\<lambda>kv. if fst kv = k then (k, v) else kv) xs) k = Some v"
    if "k \<in> fst ` set xs" for xs :: "(string \<times> json) list"
    using that
  proof (induction xs)
    case Nil
    then show ?case by simp
  next
    case (Cons a xs)
    show ?case
    proof (cases "fst a = k")
      case True
      then show ?thesis by simp
    next
      case False
      with Cons.prems have "k \<in> fst ` set xs" by auto
      from Cons.IH [OF this] False show ?thesis by simp
    qed
  qed
  with True show ?thesis by (simp only: dict_set_def if_True l)
qed

lemma create_chunk_summaries_shape:
  assumes "create_chunk_summaries env chunks clauses role w = (Inr summaries, w')"
  shows "length summaries = length chunks \<and>
         map chunkIndex summaries = map (\<lambda>k. int k + 1) [0..<length chunks] \<and>
         (\<exists>ctxs. length ctxs = length chunks \<and>
            w' = w @ map (\<lambda>k. ChatCall (SummarizePrompt role (int k + 1)
                                  (py_slice_to (chunks ! k) 500) (ctxs ! k))) [0..<length chunks] \<and>
            (\<forall>k < length chunks.
               collect summary_line
                 (map (\<lambda>j. clauses ! j)
                    [k * nat (per_chunk_of (length clauses) (length chunks))
                     ..<min ((k + 1) * nat (per_chunk_of (length clauses) (length chunks)))
                          (length clauses)])
               = Inr (ctxs ! k)))"
proof -
  let ?pc = "per_chunk_of (length clauses) (length chunks)"
  from assms have "summaries_loop env clauses role ?pc 0 chunks [] w = (Inr summaries, w')"
    by (simp add: create_chunk_summaries_def)
  from summaries_loop_shape [OF this] obtain new ctxs where
    r: "summaries = [] @ new" and ln: "length new = length chunks"
    and ix: "map chunkIndex new = map (\<lambda>k. 0 + 1 + int k) [0..<length chunks]"
    and lc: "length ctxs = length chunks"
    and cl: "\<forall>k < length chunks.
        collect summary_line (chunk_clauses_of clauses ?pc (0 + int k)) = Inr (ctxs ! k)"
    and w': "w' = w @ map (\<lambda>k. ChatCall (SummarizePrompt role (0 + 1 + int k)
                          (py_slice_to (chunks ! k) 500) (ctxs ! k))) [0..<length chunks]"
    by blast
  have pc: "0 \<le> ?pc" by (rule per_chunk_of_nonneg)
  have A: "length summaries = length chunks" using r ln by simp
  have B: "map chunkIndex summaries = map (\<lambda>k. int k + 1) [0..<length chunks]"
    using r ix by (simp add: add.commute)
  have C: "w' = w @ map (\<lambda>k. ChatCall (SummarizePrompt role (int k + 1)
                                  (py_slice_to (chunks ! k) 500) (ctxs ! k))) [0..<length chunks]"
    using w' by (simp add: add.commute)
  have D: "\<forall>k < length chunks.
               collect summary_line
                 (map (\<lambda>j. clauses ! j)
                    [k * nat ?pc..<min ((k + 1) * nat ?pc) (length clauses)])
               = Inr (ctxs ! k)"
    using cl chunk_clauses_of_nth [OF pc, of clauses] by simp
  from A B C D lc show ?thesis by blast
qed


section \<open>A run of the analysis on a one-line lease\<close>

lemma strip_about_rent: "strip '' About rent. '' = ''About rent.''"
  by (simp add: strip_def lstrip_def rstrip_def is_space_def)

lemma lease_chat_summarize:
  "chat_complete lease_env w (SummarizePrompt r i ch ctx)
   = (Inr (JStr '' About rent. ''), w @ [ChatCall (SummarizePrompt r i ch ctx)])"
  by (simp add: chat_complete_def lease_env_def chat_response_def chat_content_def dict_get_def)

lemma summary_line_rent_clause: "summary_line rent_clause = Inr (JStr ''Pay rent.'', JStr ''Low'')"
  by (simp add: summary_line_def rent_clause_def dict_get_def py_slice_to_def py_index_def)

lemma per_chunk_of_three_two: "per_chunk_of (Suc (Suc (Suc 0))) (Suc (Suc 0)) = 2"
  by (simp add: per_chunk_of_def)

lemma chunk_clauses_of_three:
  "chunk_clauses_of [rent_clause, rent_clause, rent_clause] 2 0 = [rent_clause, rent_clause]"
  "chunk_clauses_of [rent_clause, rent_clause, rent_clause] 2 1 = [rent_clause]"
  by (simp_all add: chunk_clauses_of_def py_slice_def py_index_def Let_def)

lemma lease_summaries_two:
  "create_chunk_summaries lease_env [''one'', ''two''] [rent_clause, rent_clause, rent_clause] ''tenant'' []
   = (Inr [\<lparr>chunkIndex = 1, summary = ''About rent.''\<rparr>, \<lparr>chunkIndex = 2, summary = ''About rent.''\<rparr>],
      [ChatCall (SummarizePrompt ''tenant'' 1 ''one''
         [(JStr ''Pay rent.'', JStr ''Low''), (JStr ''Pay rent.'', JStr ''Low'')]),
       ChatCall (SummarizePrompt ''tenant'' 2 ''two'' [(JStr ''Pay rent.'', JStr ''Low'')])])"
  by (simp add: create_chunk_summaries_def per_chunk_of_three_two chunk_clauses_of_three summary_line_rent_clause lease_chat_summarize strip_about_rent
        py_slice_to_def py_index_def)


lemma lease_chat_analyze:
  "chat_complete lease_env w (AnalyzeChunkPrompt r ch)
   = (Inr (JStr ''A''), w @ [ChatCall (AnalyzeChunkPrompt r ch)])"
  by (simp add: chat_complete_def lease_env_def chat_response_def chat_content_def dict_get_def)

lemma lease_chat_synthesize:
  "chat_complete lease_env w (SynthesizePrompt r ctx)
   = (Inr (JStr ''S''), w @ [ChatCall (SynthesizePrompt r ctx)])"
  by (simp add: chat_complete_def lease_env_def chat_response_def chat_content_def dict_get_def)

lemma lease_parse_analysis: "try_parse_json lease_env ''A'' = Some (JObj [(''clauses'', JArr [rent_clause])])"
  by (simp add: try_parse_json_def lease_env_def Let_def strip_def lstrip_def rstrip_def
      is_space_def startswith_def endswith_def)

lemma lease_parse_synthesis: "try_parse_json lease_env ''S'' = Some (JObj [(''summary'', JStr ''A lease.'')])"
  by (simp add: try_parse_json_def lease_env_def Let_def strip_def lstrip_def rstrip_def
      is_space_def startswith_def endswith_def)

lemma lease_analyze_chunk:
  "analyze_chunk lease_env ch r w = (Inr (JArr [rent_clause]), w @ [ChatCall (AnalyzeChunkPrompt r ch)])"
  by (simp add: analyze_chunk_def lease_chat_analyze lease_parse_analysis dict_get_def)

lemma lease_summaries_hello:
  "create_chunk_summaries lease_env [''# Hello.''] [rent_clause] ''tenant'' w
   = (Inr [\<lparr>chunkIndex = 1, summary = ''About rent.''\<rparr>],
      w @ [ChatCall (SummarizePrompt ''tenant'' 1 ''# Hello.'' [(JStr ''Pay rent.'', JStr ''Low'')])])"
  by (simp add: create_chunk_summaries_def per_chunk_of_def chunk_clauses_of_def py_slice_def
        Let_def summary_line_rent_clause lease_chat_summarize strip_about_rent py_slice_to_def py_index_def)

lemma lease_synthesize_hello:
  "synthesize_report lease_env [rent_clause] ''tenant'' w
   = (Inr (JObj [(''summary'', JStr ''A lease.''), (''chunkSummaries'', JArr [])]),
      w @ [ChatCall (SynthesizePrompt ''tenant'' [(JStr ''Pay rent.'', JStr [], JStr ''Low'', JStr [])])])"
  by (simp add: synthesize_report_def synth_line_def rent_clause_def dict_get_def lease_chat_synthesize lease_parse_synthesis)

lemma lease_analyze_hello:
  "analyze_contract lease_env ''Hello.'' ''tenant'' []
   = Some (Inr [(''summary'', JStr ''A lease.''),
                (''chunkSummaries'', JArr [summary_json \<lparr>chunkIndex = 1, summary = ''About rent.''\<rparr>]),
                (''clauses'', JArr [rent_clause])],
           [ChatCall (AnalyzeChunkPrompt ''tenant'' ''# Hello.''),
            ChatCall (SummarizePrompt ''tenant'' 1 ''# Hello.'' [(JStr ''Pay rent.'', JStr ''Low'')]),
            ChatCall (SynthesizePrompt ''tenant'' [(JStr ''Pay rent.'', JStr [], JStr ''Low'', JStr [])])])"
proof -
  have c: "chunk_text (convert_pdf_to_markdown ''Hello.'') 4000 300 = Some (Inr [''# Hello.''])"
    by code_simp
  show ?thesis
    by (simp add: analyze_contract_def c lease_analyze_chunk lease_summaries_hello lease_synthesize_hello
        merge_report_def dict_set_def)
qed

section \<open>The short-circuit of chunk\_text\<close>

text \<open>
  C5. A text no longer than \<open>chunk_size\<close> comes back as the only chunk, unchanged: the
  result is there whatever the parser and the assembler would do.
\<close>

theorem chunk_text_short:
  "int (length text) \<le> chunk_size \<Longrightarrow> chunk_text text chunk_size overlap = Some (Inr [text])"
  by (simp add: chunk_text_def)

theorem chunk_text_short_witness:
  "int (length ''Hello.'') \<le> 4000 \<and> chunk_text ''Hello.'' 4000 300 = Some (Inr [''Hello.''])"
  using chunk_text_short [of "''Hello.''" 4000 300] by simp


section \<open>Termination of chunk\_text\<close>

text \<open>
  The splitting loop of \<open>_split_large_section\<close> on the section \<open>"a"\<close> with
  \<open>chunk_size = -1\<close> and \<open>overlap = -1\<close>: the fragment ends at \<open>-1\<close>, the next start
  is \<open>-1 - (-1) = 0\<close> again, and the loop never ends.
\<close>

lemma split_loop_stuck: "split_loop ''a'' (- 1) (- 1) 0 chunks = None"
proof (cases "split_loop ''a'' (- 1) (- 1) 0 chunks")
  case None
  then show ?thesis .
next
  case (Some r)
  have e: "split_end ''a'' (- 1) (- 1) 0 = - 1" by code_simp
  have "\<not> (''a'' = ''a'' \<and> (- 1 :: int) = - 1 \<and> (- 1 :: int) = - 1 \<and> (0 :: int) = 0)"
  proof (rule split_loop.raw_induct
      [where P = "\<lambda>s cs ov start chunks r. \<not> (s = ''a'' \<and> cs = - 1 \<and> ov = - 1 \<and> start = 0)",
       OF _ Some], goal_cases)
    case (1 f s cs ov start chunks r)
    show ?case
    proof
      assume a: "s = ''a'' \<and> cs = - 1 \<and> ov = - 1 \<and> start = 0"
      with 1(2) e have "f ''a'' (- 1) (- 1) 0
          (split_append chunks (strip (py_slice ''a'' 0 (- 1)))) = Some r"
        by simp
      from 1(1) [OF this] show False by simp
    qed
  qed
  then show ?thesis by simp
qed

lemma parse_a: "parse_with_regex ''a'' = [\<lparr>stype = Heading, content = ''a'', level = 1\<rparr>]"
  by code_simp

text \<open>
  C10, as stated: \<open>chunk_text\<close> terminates whenever \<open>chunk_size > 2 * overlap\<close>. Both
  parameters are Python ints, and with a negative overlap the inequality does not make the
  start position advance: \<open>chunk_text("a", -1, -1)\<close> does not return.
\<close>

theorem chunk_text_negative_overlap_counterexample:
  "2 * (- 1) < (- 1 :: int) \<and> chunk_text ''a'' (- 1) (- 1) = None"
proof -
  have "split_large_section ''a'' (- 1) (- 1) = None"
    by (simp only: split_large_section_def split_loop_stuck)
  then have "sections_loop (parse_with_regex ''a'') (- 1) (- 1) ([], []) = None"
    by (simp add: parse_a pack_section_def)
  then show ?thesis by (simp add: chunk_text_def sections_to_chunks_def)
qed

text \<open>
  C10, amended: for every text, \<open>chunk_text\<close> returns a list of chunks (it neither loops
  nor raises) whenever \<open>overlap \<ge> 0\<close> and \<open>chunk_size > 2 * overlap\<close>, and under these
  conditions every iteration of the splitting loop moves the start position forward by at
  least \<open>chunk_size - 2 * overlap\<close>.
\<close>

theorem chunk_text_terminates:
  assumes "0 \<le> overlap" "2 * overlap < chunk_size"
  shows "(\<exists>chunks. chunk_text text chunk_size overlap = Some (Inr chunks)) \<and>
         (\<forall>sect start. start + (chunk_size - 2 * overlap)
                         \<le> split_end sect chunk_size overlap start - overlap)"
proof
  show "\<exists>chunks. chunk_text text chunk_size overlap = Some (Inr chunks)"
  proof (cases "int (length text) \<le> chunk_size")
    case True
    then show ?thesis by (simp add: chunk_text_def)
  next
    case False
    from sections_loop_terminates [OF assms parse_contents, of "text" "([], [])"]
    show ?thesis using False by (simp add: chunk_text_def sections_to_chunks_def)
  qed
next
  show "\<forall>sect start. start + (chunk_size - 2 * overlap)
                         \<le> split_end sect chunk_size overlap start - overlap"
  proof (intro allI)
    fix sect start
    have "start + chunk_size - overlap \<le> split_end sect chunk_size overlap start"
      using assms(1) by (rule split_end_lower)
    then show "start + (chunk_size - 2 * overlap) \<le> split_end sect chunk_size overlap start - overlap"
      by simp
  qed
qed

theorem chunk_text_terminates_witness:
  "(0 :: int) \<le> 2 \<and> 2 * 2 < (10 :: int) \<and>
   (\<exists>chunks. chunk_text ''aaaaaaaaaaaaaaaaaaaaaaaa'' 10 2 = Some (Inr chunks))"
  using chunk_text_terminates [of 2 10 "''aaaaaaaaaaaaaaaaaaaaaaaa''"] by simp


section \<open>The length of the chunks\<close>

lemma pack_section_bound:
  assumes "1 \<le> ov"
    and "pack_section c cs ov (chunks, current) = (chunks1, current1)"
    and "\<forall>x \<in> set chunks. int (length x) \<le> chunk_bound cs ov"
    and "int (length current) \<le> chunk_bound cs ov"
  shows "(\<forall>x \<in> set chunks1. int (length x) \<le> chunk_bound cs ov) \<and>
         (int (length c) \<le> cs \<longrightarrow> int (length current1) \<le> chunk_bound cs ov)"
proof (cases "int (length current) + int (length c) > cs \<and> current \<noteq> []")
  case True
  let ?over = "get_overlap_text current ov"
  from True assms(2) have c1: "chunks1 = chunks @ [strip current]"
    and cur1: "current1 = ?over @ (if ?over \<noteq> [] then [LF, LF] else []) @ c"
    by (simp_all add: pack_section_def Let_def)
  have "int (length (strip current)) \<le> int (length current)"
    using length_strip [of current] by simp
  with assms(3,4) c1 have A: "\<forall>x \<in> set chunks1. int (length x) \<le> chunk_bound cs ov" by auto
  have "int (length ?over) \<le> max ov (int_times_1_5 ov - 2)"
    using assms(1) by (rule length_get_overlap_text)
  then have "int (length c) \<le> cs \<longrightarrow> int (length current1) \<le> chunk_bound cs ov"
    by (simp add: cur1 chunk_bound_def)
  with A show ?thesis by blast
next
  case False
  with assms(2) have c1: "chunks1 = chunks"
    and cur1: "current1 = (if current \<noteq> [] then current @ [LF, LF] @ c else c)"
    by (auto simp: pack_section_def)
  have "0 \<le> max ov (int_times_1_5 ov - 2)" using assms(1) by simp
  with False have "int (length c) \<le> cs \<longrightarrow> int (length current1) \<le> chunk_bound cs ov"
    by (auto simp: cur1 chunk_bound_def)
  with assms(3) c1 show ?thesis by simp
qed

lemma sections_loop_bound:
  assumes "1 \<le> ov" "2 * ov < cs"
  shows "sections_loop secs cs ov (chunks, current) = Some (Inr r) \<Longrightarrow>
         \<forall>x \<in> set chunks. int (length x) \<le> chunk_bound cs ov \<Longrightarrow>
         int (length current) \<le> chunk_bound cs ov \<Longrightarrow>
         \<forall>x \<in> set r. int (length x) \<le> chunk_bound cs ov"
proof (induction secs arbitrary: chunks current)
  case Nil
  have "int (length (strip current)) \<le> int (length current)"
    using length_strip [of current] by simp
  with Nil show ?case by (auto split: if_splits)
next
  case (Cons sec secs)
  obtain chunks1 current1 where
    p: "pack_section (content sec) cs ov (chunks, current) = (chunks1, current1)"
    by (cases "pack_section (content sec) cs ov (chunks, current)")
  from pack_section_bound [OF assms(1) p Cons.prems(2,3)]
  have b1: "\<forall>x \<in> set chunks1. int (length x) \<le> chunk_bound cs ov"
    and b2: "int (length (content sec)) \<le> cs \<longrightarrow> int (length current1) \<le> chunk_bound cs ov"
    by blast+
  show ?case
  proof (cases "int (length (content sec)) > cs")
    case False
    with Cons.prems(1) p have "sections_loop secs cs ov (chunks1, current1) = Some (Inr r)"
      by simp
    from Cons.IH [OF this b1] b2 False show ?thesis by simp
  next
    case True
    with Cons.prems(1) p obtain sub0 subs where
      sp: "split_large_section (content sec) cs ov = Some (sub0 # subs)"
      and rec: "sections_loop secs cs ov (chunks1 @ subs, sub0) = Some (Inr r)"
      by (auto split: option.splits list.splits)
    have "\<forall>x \<in> set (sub0 # subs). int (length x) \<le> cs + ov"
      using split_large_section_bound [OF sp] assms by simp
    moreover have "cs + ov \<le> chunk_bound cs ov" by (simp add: chunk_bound_def)
    ultimately have "\<forall>x \<in> set (sub0 # subs). int (length x) \<le> chunk_bound cs ov"
      by fastforce
    with b1 have "\<forall>x \<in> set (chunks1 @ subs). int (length x) \<le> chunk_bound cs ov"
      and "int (length sub0) \<le> chunk_bound cs ov" by auto
    from Cons.IH [OF rec this] show ?thesis .
  qed
qed

text \<open>
  C1, as stated: every chunk of a text longer than \<open>chunk_size\<close> has at most
  \<open>chunk_size + overlap\<close> characters. The assembler puts an overlap tail and a separator
  in front of the next section without looking at the sum: with \<open>chunk_size = 10\<close> and
  \<open>overlap = 2\<close>, the sections \<open>"aaaa"\<close> and \<open>"bbbbbbbbbb"\<close> give a second chunk of 14
  characters.
\<close>

theorem chunk_text_chunk_bound_counterexample:
  "(10 :: int) < int (length (''aaaa'' @ [LF, LF] @ ''bbbbbbbbbb'')) \<and>
   chunk_text (''aaaa'' @ [LF, LF] @ ''bbbbbbbbbb'') 10 2
     = Some (Inr [''aaaa'', ''aa'' @ [LF, LF] @ ''bbbbbbbbbb'']) \<and>
   \<not> int (length (''aa'' @ [LF, LF] @ ''bbbbbbbbbb'')) \<le> 10 + 2"
  by code_simp

text \<open>
  C1, amended: for \<open>overlap \<ge> 1\<close> and \<open>chunk_size > 2 * overlap\<close>, \<open>chunk_text\<close> on a text
  longer than \<open>chunk_size\<close> returns chunks of at most
  \<open>chunk_size + max(overlap, int(1.5 * overlap) - 2) + 2\<close> characters.
\<close>

theorem chunk_text_chunk_bound:
  assumes "chunk_size < int (length text)" "1 \<le> overlap" "2 * overlap < chunk_size"
  shows "\<exists>chunks. chunk_text text chunk_size overlap = Some (Inr chunks) \<and>
           (\<forall>c \<in> set chunks.
              int (length c) \<le> chunk_size + max overlap (int_times_1_5 overlap - 2) + 2)"
proof -
  have ov: "0 \<le> overlap" using assms(2) by simp
  from sections_loop_terminates [OF ov assms(3) parse_contents, of "text" "([], [])"]
  obtain r where r: "sections_loop (parse_with_regex text) chunk_size overlap ([], []) = Some (Inr r)"
    by blast
  have "0 \<le> chunk_bound chunk_size overlap" using assms(2,3) by (simp add: chunk_bound_def)
  with sections_loop_bound [OF assms(2,3) r]
  have "\<forall>x \<in> set r. int (length x) \<le> chunk_bound chunk_size overlap" by simp
  with r assms(1) show ?thesis
    by (simp add: chunk_text_def sections_to_chunks_def chunk_bound_def)
qed

theorem chunk_text_chunk_bound_witness:
  "(10 :: int) < int (length (''aaaa'' @ [LF, LF] @ ''bbbbbbbbbb'')) \<and> (1 :: int) \<le> 2 \<and>
   2 * 2 < (10 :: int) \<and>
   (\<exists>chunks. chunk_text (''aaaa'' @ [LF, LF] @ ''bbbbbbbbbb'') 10 2 = Some (Inr chunks) \<and>
      (\<forall>c \<in> set chunks. int (length c) \<le> 10 + max 2 (int_times_1_5 2 - 2) + 2))"
  using chunk_text_chunk_bound [of 10 "''aaaa'' @ [LF, LF] @ ''bbbbbbbbbb''" 2] by simp


section \<open>The split point of an oversize section\<close>








section \<open>The overlap tail\<close>

lemma py_slice_from_neg:
  "0 < k \<Longrightarrow> py_slice_from t (- k) = drop (length t - nat k) t"
proof -
  assume k: "0 < k"
  have "py_index (length t) (- k) = length t - nat k"
    using k by (auto simp: py_index_def max_def)
  then show ?thesis by (simp add: py_slice_from_def)
qed

text \<open>
  C3, as stated: the tail starts just after the first boundary of the window, a boundary
  being a full stop, a space and a capital letter. On the chunk \<open>"q. Ab. Acd"\<close> with
  \<open>overlap = 6\<close> the window is \<open>". Ab. Acd"\<close>, its first boundary is at position 0, and the
  tail after it is \<open>"Ab. Acd"\<close>; the code returns \<open>"Acd"\<close>, the text after the last place
  where the matched text \<open>". A"\<close> occurs.
\<close>

theorem get_overlap_text_first_boundary_counterexample:
  "(6 :: int) < int (length ''q. Ab. Acd'') \<and>
   overlap_window ''q. Ab. Acd'' 6 = ''. Ab. Acd'' \<and>
   spec_overlap_tail ''q. Ab. Acd'' 6 = ''Ab. Acd'' \<and>
   get_overlap_text ''q. Ab. Acd'' 6 = ''Acd''"
  by code_simp

text \<open>
  C3, amended: on a chunk longer than \<open>overlap \<ge> 1\<close>, with the window of the last
  \<open>int(1.5 * overlap)\<close> characters: when the window holds no sentence boundary (one of
  \<open>. ! ?\<close>, whitespace, a capital letter), the result is the last \<open>overlap\<close> characters,
  verbatim; when \<open>g\<close> is the text of its first boundary, the result is what follows the
  punctuation mark of the last occurrence of \<open>g\<close> in the chunk, stripped of surrounding
  whitespace, and that occurrence lies in the window, at or after the first boundary.
\<close>

theorem get_overlap_text_tail:
  assumes "1 \<le> overlap" "overlap < int (length t)"
  shows "((\<forall>p g. \<not> boundary_at (overlap_window t overlap) p g) \<longrightarrow>
            get_overlap_text t overlap = drop (length t - nat overlap) t) \<and>
         (first_boundary (overlap_window t overlap) p g \<longrightarrow>
            (\<exists>q. occurs_at t g q \<and> (\<forall>q'. occurs_at t g q' \<longrightarrow> q' \<le> q) \<and>
                 length t - length (overlap_window t overlap) + p \<le> q \<and>
                 get_overlap_text t overlap = strip (drop (Suc q) t)))"
proof (intro conjI impI)
  have k: "0 < int_times_1_5 overlap" using assms(1) by (simp add: int_times_1_5_def)
  have area: "py_slice_from t (- int_times_1_5 overlap) = overlap_window t overlap"
    using k by (simp add: py_slice_from_neg overlap_window_def)
  {
    assume "\<forall>p g. \<not> boundary_at (overlap_window t overlap) p g"
    then have "search_sentence (overlap_window t overlap) = None"
      using search_sentence_None by blast
    then have "get_overlap_text t overlap = py_slice_from t (- overlap)"
      using assms(2) by (simp add: get_overlap_text_def area)
    also have "\<dots> = drop (length t - nat overlap) t"
      using assms(1) by (intro py_slice_from_neg) simp
    finally show "get_overlap_text t overlap = drop (length t - nat overlap) t" .
  }
  {
    let ?w = "overlap_window t overlap"
    assume fb: "first_boundary ?w p g"
    then have s: "search_sentence ?w = Some g" using search_sentence_Some by blast
    from fb have occ: "occurs_at ?w g p" by (auto simp: first_boundary_def boundary_at_def)
    have len: "length ?w \<le> length t" by (simp add: overlap_window_def)
    have w: "?w = drop (length t - length ?w) t" by (simp add: overlap_window_def)
    have "occurs_at (drop (length t - length ?w) t) g p" using occ w by simp
    then have occ_t: "occurs_at t g (length t - length ?w + p)"
      by (intro occurs_at_drop) simp_all
    let ?r = "rfind t g"
    from rfind_cases [of t g] occ_t
    have r0: "0 \<le> ?r" and rocc: "occurs_at t g (nat ?r)"
      and rmax: "\<forall>j. occurs_at t g j \<longrightarrow> int j \<le> ?r" by auto
    have "py_index (length t) (?r + 1) = min (length t) (Suc (nat ?r))"
      using r0 by (simp add: py_index_def nat_add_distrib)
    then have "py_slice_from t (?r + 1) = drop (Suc (nat ?r)) t"
      by (simp add: py_slice_from_def min_def)
    then have res: "get_overlap_text t overlap = strip (drop (Suc (nat ?r)) t)"
      using assms(2) s by (simp add: get_overlap_text_def area)
    have "\<forall>q'. occurs_at t g q' \<longrightarrow> q' \<le> nat ?r" using rmax r0 by (metis nat_int nat_mono)
    moreover from this occ_t have "length t - length ?w + p \<le> nat ?r" by blast
    ultimately show "\<exists>q. occurs_at t g q \<and> (\<forall>q'. occurs_at t g q' \<longrightarrow> q' \<le> q) \<and>
                 length t - length ?w + p \<le> q \<and>
                 get_overlap_text t overlap = strip (drop (Suc q) t)"
      using rocc res by blast
  }
qed

theorem get_overlap_text_tail_witness:
  "((1 :: int) \<le> 6 \<and> (6 :: int) < int (length ''q. Ab. Acd'') \<and>
    first_boundary (overlap_window ''q. Ab. Acd'' 6) 0 ''. A'') \<and>
   (\<exists>q. occurs_at ''q. Ab. Acd'' ''. A'' q \<and>
        get_overlap_text ''q. Ab. Acd'' 6 = strip (drop (Suc q) ''q. Ab. Acd'')) \<and>
   ((1 :: int) \<le> 2 \<and> (2 :: int) < int (length ''abcdef'') \<and>
    (\<forall>p g. \<not> boundary_at (overlap_window ''abcdef'' 2) p g)) \<and>
   get_overlap_text ''abcdef'' 2 = drop (length ''abcdef'' - nat 2) ''abcdef''"
proof -
  have w1: "overlap_window ''q. Ab. Acd'' 6 = ''. Ab. Acd''" by code_simp
  have "match_sentence_at ''. Ab. Acd'' = Some ''. A''" by code_simp
  then have "boundary_at ''. Ab. Acd'' 0 ''. A''" using match_sentence_at_iff by blast
  then have fb: "first_boundary (overlap_window ''q. Ab. Acd'' 6) 0 ''. A''"
    by (simp add: w1 first_boundary_def)
  have h1: "(1 :: int) \<le> 6" "(6 :: int) < int (length ''q. Ab. Acd'')" by simp_all
  from get_overlap_text_tail [OF h1, of 0 "''. A''"] fb
  have A: "\<exists>q. occurs_at ''q. Ab. Acd'' ''. A'' q \<and>
        get_overlap_text ''q. Ab. Acd'' 6 = strip (drop (Suc q) ''q. Ab. Acd'')" by blast
  have "search_sentence (overlap_window ''abcdef'' 2) = None" by code_simp
  then have nb: "\<forall>p g. \<not> boundary_at (overlap_window ''abcdef'' 2) p g"
    using search_sentence_None by blast
  have h2: "(1 :: int) \<le> 2" "(2 :: int) < int (length ''abcdef'')" by simp_all
  from get_overlap_text_tail [OF h2, of 0 "[]"] nb
  have B: "get_overlap_text ''abcdef'' 2 = drop (length ''abcdef'' - nat 2) ''abcdef''" by blast
  from A B fb nb h1 h2 show ?thesis by blast
qed


section \<open>The blank scenario\<close>

lemma strip_all_space:
  assumes "\<forall>c \<in> set s. is_space c"
  shows "strip s = []"
proof -
  from assms have "lstrip s = []" by (simp add: lstrip_def dropWhile_eq_Nil_conv)
  then show ?thesis by (simp add: strip_def rstrip_def)
qed

text \<open>
  C9. With an empty or whitespace-only scenario, \<open>simulate_impact\<close> returns the fixed
  guidance string for every document, and the log of calls to the capabilities is the one
  it started with: nothing was chunked, embedded or generated.
\<close>

theorem simulate_impact_blank_scenario:
  "\<forall>c \<in> set scenario. is_space c \<Longrightarrow>
   simulate_impact env document_text scenario w = Some (Inr (JStr guidance_message), w)"
  by (simp add: simulate_impact_def strip_all_space)

theorem simulate_impact_blank_scenario_witness:
  "strip ''  '' = [] \<and>
   simulate_impact \<lparr>GROQ_API_KEY = ''key'', http_post = (\<lambda>w c. Inl ''unreachable''),
                     json_loads = (\<lambda>s. None), arith = exact_arith\<rparr> ''Some contract.'' ''  '' []
     = Some (Inr (JStr ''Please enter a scenario to simulate.''), [])"
proof -
  have h: "\<forall>c \<in> set ''  ''. is_space c" by (simp add: is_space_def)
  from simulate_impact_blank_scenario [OF h] strip_all_space [OF h] show ?thesis
    by (simp add: guidance_message_def)
qed


section \<open>The empty result\<close>

lemma chunk_text_default_returns:
  "\<exists>chunks. chunk_text t 4000 300 = Some (Inr chunks)"
proof (cases "int (length t) \<le> 4000")
  case True
  then show ?thesis by (simp add: chunk_text_def)
next
  case False
  have "(0 :: int) \<le> 300" "2 * 300 < (4000 :: int)" by simp_all
  from sections_loop_terminates [OF this parse_contents, of t "([], [])"]
  show ?thesis using False by (simp add: chunk_text_def sections_to_chunks_def)
qed




section \<open>Retrieval degrades to all chunks\<close>

lemma snd_embed_texts: "snd (embed_texts env w texts) = w @ [EmbedCall texts]"
  by (simp add: embed_texts_def)

text \<open>
  C6. When \<open>embed_texts\<close> raises (transport error, bad status, malformed body), when it
  returns a number of vectors other than the number of inputs, or when ranking the vectors
  raises, retrieval returns the chunk list it was given, unchanged and in its order, after
  the one embedding call. Its result is a list in every case: no error reaches the caller.
\<close>

theorem retrieval_degrades:
  "(\<exists>e. fst (embed_texts env w (chunks @ [query])) = Inl e) \<or>
   (\<exists>vectors. fst (embed_texts env w (chunks @ [query])) = Inr vectors \<and>
      (length vectors \<noteq> length (chunks @ [query]) \<or>
       (\<exists>e. rank_chunks (arith env) chunks vectors top_k = Inl e)))
   \<Longrightarrow> vector_retrieve_relevant_chunks env chunks query top_k w
         = (chunks, w @ [EmbedCall (chunks @ [query])])"
proof -
  assume a: "(\<exists>e. fst (embed_texts env w (chunks @ [query])) = Inl e) \<or>
   (\<exists>vectors. fst (embed_texts env w (chunks @ [query])) = Inr vectors \<and>
      (length vectors \<noteq> length (chunks @ [query]) \<or>
       (\<exists>e. rank_chunks (arith env) chunks vectors top_k = Inl e)))"
  obtain r w' where e: "embed_texts env w (chunks @ [query]) = (r, w')"
    by (cases "embed_texts env w (chunks @ [query])")
  have w': "w' = w @ [EmbedCall (chunks @ [query])]"
    using snd_embed_texts [of env w "chunks @ [query]"] e by simp
  from a e show ?thesis
    unfolding vector_retrieve_relevant_chunks_def w' [symmetric]
    by (auto split: sum.splits)
qed

theorem retrieval_degrades_witness:
  "fst (embed_texts failing_env [] ([''a'', ''b''] @ [''q''])) = Inl (TransportError ''timed out'') \<and>
   vector_retrieve_relevant_chunks failing_env [''a'', ''b''] ''q'' 6 []
     = ([''a'', ''b''], [] @ [EmbedCall ([''a'', ''b''] @ [''q''])]) \<and>
   fst (embed_texts one_vector_env [] ([''a'', ''b''] @ [''q''])) = Inr [JArr [JNum 1, JNum 0]] \<and>
   length [JArr [JNum 1, JNum 0]] \<noteq> length ([''a'', ''b''] @ [''q'']) \<and>
   vector_retrieve_relevant_chunks one_vector_env [''a'', ''b''] ''q'' 6 []
     = ([''a'', ''b''], [] @ [EmbedCall ([''a'', ''b''] @ [''q''])])"
proof -
  have f: "fst (embed_texts failing_env [] ([''a'', ''b''] @ [''q''])) = Inl (TransportError ''timed out'')"
    by (simp add: embed_texts_def failing_env_def)
  have o: "fst (embed_texts one_vector_env [] ([''a'', ''b''] @ [''q''])) = Inr [JArr [JNum 1, JNum 0]]"
    by (simp add: embed_texts_def one_vector_env_def dict_get_def)
  have l: "length [JArr [JNum 1, JNum 0]] \<noteq> length ([''a'', ''b''] @ [''q''])" by simp
  from retrieval_degrades [of failing_env "[]" "[''a'', ''b'']" "''q''" 6] f
  have A: "vector_retrieve_relevant_chunks failing_env [''a'', ''b''] ''q'' 6 []
     = ([''a'', ''b''], [] @ [EmbedCall ([''a'', ''b''] @ [''q''])])" by blast
  from retrieval_degrades [of one_vector_env "[]" "[''a'', ''b'']" "''q''" 6] o l
  have B: "vector_retrieve_relevant_chunks one_vector_env [''a'', ''b''] ''q'' 6 []
     = ([''a'', ''b''], [] @ [EmbedCall ([''a'', ''b''] @ [''q''])])" by blast
  from f o l A B show ?thesis by blast
qed


section \<open>Ranked retrieval\<close>

lemma embed_four:
  "embed_texts four_vectors_env [] ([''a'', ''b'', ''c''] @ [''q''])
     = (Inr [JArr [JNum 1, JNum 0], JArr [JNum 0, JNum 1], JArr [JNum 1, JNum 0], JArr [JNum 1, JNum 0]],
        [EmbedCall [''a'', ''b'', ''c'', ''q'']])"
  by (simp add: embed_texts_def four_vectors_env_def dict_get_def)

lemma exact_one_zero:
  "exact_mul (PFloat (Finite 1)) (PFloat (Finite 1)) = PFloat (Finite 1)"
  "exact_mul (PFloat (Finite 1)) (PFloat (Finite 0)) = PFloat (Finite 0)"
  "exact_mul (PFloat (Finite 0)) (PFloat (Finite 1)) = PFloat (Finite 0)"
  "exact_mul (PFloat (Finite 0)) (PFloat (Finite 0)) = PFloat (Finite 0)"
  "exact_add (PInt 0) (PFloat (Finite 1)) = PFloat (Finite 1)"
  "exact_add (PInt 0) (PFloat (Finite 0)) = PFloat (Finite 0)"
  "exact_add (PFloat (Finite 1)) (PFloat (Finite 0)) = PFloat (Finite 1)"
  "exact_add (PFloat (Finite 0)) (PFloat (Finite 1)) = PFloat (Finite 1)"
  "exact_add (PFloat (Finite 0)) (PFloat (Finite 0)) = PFloat (Finite 0)"
  "exact_sqrt (PFloat (Finite 1)) = Inr (Finite 1)"
  "exact_truediv (PFloat (Finite 1)) (PFloat (Finite 1)) = Inr (Finite 1)"
  "exact_truediv (PFloat (Finite 0)) (PFloat (Finite 1)) = Inr (Finite 0)"
  by (simp_all add: exact_sqrt_def exact_truediv_def)

lemma similarity_10_10:
  "similarity exact_arith (JArr [JNum 1, JNum 0]) (JArr [JNum 1, JNum 0]) = Inr (Finite 1)"
  by (simp add: similarity_def json_vector_def cosine_similarity_def dot_product_def norm_of_def
        exact_arith_def exact_one_zero)

lemma similarity_01_10:
  "similarity exact_arith (JArr [JNum 0, JNum 1]) (JArr [JNum 1, JNum 0]) = Inr (Finite 0)"
  by (simp add: similarity_def json_vector_def cosine_similarity_def dot_product_def norm_of_def
        exact_arith_def exact_one_zero)

lemma rank_four:
  "rank_chunks exact_arith [''a'', ''b'', ''c'']
     [JArr [JNum 1, JNum 0], JArr [JNum 0, JNum 1], JArr [JNum 1, JNum 0], JArr [JNum 1, JNum 0]] 6
   = Inr [''a'', ''c'', ''b'']"
  by (simp add: rank_chunks_def similarity_10_10 similarity_01_10 sorted_desc_def
        py_slice_to_def py_index_def upt_rec)

lemma rank_four_zero:
  "rank_chunks exact_arith [''a'', ''b'', ''c'']
     [JArr [JNum 1, JNum 0], JArr [JNum 0, JNum 1], JArr [JNum 1, JNum 0], JArr [JNum 1, JNum 0]] 0
   = Inr [''a'', ''b'', ''c'']"
  by (simp add: rank_chunks_def similarity_10_10 similarity_01_10 py_slice_to_def py_index_def)

lemma embed_parallel:
  "embed_texts parallel_vectors_env [] ([''a'', ''b''] @ [''q''])
     = (Inr [JArr [JNum 1, JNum 1], JArr [JNum 3, JNum 3], JArr [JNum 1, JNum 1]],
        [EmbedCall [''a'', ''b'', ''q'']])"
  by (simp add: embed_texts_def parallel_vectors_env_def dict_get_def)

lemma double_arith_fields:
  "py_sum double_arith = (\<lambda>xs. Inr (foldl exact_add (PInt 0) xs))"
  "py_mul double_arith = (\<lambda>a b. Inr (double_mul a b))"
  "math_sqrt double_arith = double_sqrt"
  "py_truediv double_arith = double_truediv"
  by (simp_all add: double_arith_def)

lemma arith_four_vectors_env: "arith four_vectors_env = exact_arith"
  by (simp add: four_vectors_env_def)

lemma arith_parallel_vectors_env: "arith parallel_vectors_env = double_arith"
  by (simp add: parallel_vectors_env_def)

lemma norm_11: "norm_of double_arith [PFloat (Finite 1), PFloat (Finite 1)] = Inr (Finite root_2)"
  by (simp add: norm_of_def double_arith_fields double_mul_def double_sqrt_def root_2_def root_18_def)

lemma norm_33: "norm_of double_arith [PFloat (Finite 3), PFloat (Finite 3)] = Inr (Finite root_18)"
  by (simp add: norm_of_def double_arith_fields double_mul_def double_sqrt_def root_2_def root_18_def)

lemma similarity_11_11:
  "similarity double_arith (JArr [JNum 1, JNum 1]) (JArr [JNum 1, JNum 1])
   = Inr (Finite (4503599627370495 / 4503599627370496))"
  by (simp add: similarity_def json_vector_def cosine_similarity_def norm_11
        dot_product_def double_arith_fields double_mul_def double_truediv_def
        root_2_def root_18_def root_2_squared_def)

lemma similarity_33_11:
  "similarity double_arith (JArr [JNum 3, JNum 3]) (JArr [JNum 1, JNum 1]) = Inr (Finite 1)"
  by (simp add: similarity_def json_vector_def cosine_similarity_def norm_11 norm_33
        dot_product_def double_arith_fields double_mul_def double_truediv_def
        root_2_def root_18_def root_2_squared_def exact_truediv_def)

lemma rank_parallel:
  "rank_chunks double_arith [''a'', ''b'']
     [JArr [JNum 1, JNum 1], JArr [JNum 3, JNum 3], JArr [JNum 1, JNum 1]] 6
   = Inr [''b'', ''a'']"
  by (simp add: rank_chunks_def similarity_11_11 similarity_33_11 sorted_desc_def
        py_slice_to_def py_index_def upt_rec)

text \<open>
  C7, as stated: the ranked chunks are truncated to the top \<open>min(top_k, numChunks)\<close>. With
  \<open>top_k = 0\<close> that is no chunk; the code finds the selection empty and returns all three
  chunks, in their original order.
\<close>

theorem retrieval_top_k_zero_counterexample:
  "fst (embed_texts four_vectors_env [] ([''a'', ''b'', ''c''] @ [''q'']))
     = Inr [JArr [JNum 1, JNum 0], JArr [JNum 0, JNum 1], JArr [JNum 1, JNum 0], JArr [JNum 1, JNum 0]] \<and>
   fst (vector_retrieve_relevant_chunks four_vectors_env [''a'', ''b'', ''c''] ''q'' 0 [])
     = [''a'', ''b'', ''c''] \<and>
   length (fst (vector_retrieve_relevant_chunks four_vectors_env [''a'', ''b'', ''c''] ''q'' 0 []))
     \<noteq> nat (min 0 (int (length [''a'', ''b'', ''c''])))"
  by (simp add: vector_retrieve_relevant_chunks_def embed_four [simplified] rank_four_zero
        arith_four_vectors_env)

text \<open>
  C7, amended: when \<open>embed_texts\<close> returns one vector per input, every similarity
  \<open>_cosine_similarity(v, query_vec)\<close> is computed without an exception, none of them is a NaN
  and \<open>top_k \<ge> 1\<close>, retrieval returns the chunks at the first \<open>min(top_k, numChunks)\<close>
  positions of a permutation of the chunk indices that is sorted by descending similarity,
  with equal similarities in the order of the indices. The similarities are the floats that
  the code computes, with the arithmetic of the interpreter, whatever it rounds to: two
  vectors whose exact cosines are equal may get different similarities, and are then ranked
  by these. With three chunks and \<open>top_k = 6\<close> all three come back, ranked (the first example
  of the witness); in the second example two chunk vectors point in the direction of the
  query vector, and double precision arithmetic ranks the second before the first.
\<close>

theorem retrieval_ranked:
  assumes "fst (embed_texts env w (chunks @ [query])) = Inr vectors"
    and "length vectors = length (chunks @ [query])"
    and "length scores = length chunks"
    and "\<forall>i < length chunks. similarity (arith env) (vectors ! i) (last vectors) = Inr (scores ! i)"
    and "NaN \<notin> set scores"
    and "1 \<le> top_k"
  shows "\<exists>idxs.
           fst (vector_retrieve_relevant_chunks env chunks query top_k w)
             = map (\<lambda>i. chunks ! i) (take (nat (min top_k (int (length chunks)))) idxs) \<and>
           distinct idxs \<and> set idxs = {0..<length chunks} \<and>
           sorted_wrt (\<lambda>i j. float_less (scores ! j) (scores ! i) \<or>
                               (scores ! i = scores ! j \<and> i < j)) idxs"
proof -
  let ?n = "length chunks"
  let ?g = "\<lambda>i. scores ! i"
  let ?f = "\<lambda>v. similarity (arith env) v (last vectors)"
  have lb: "length (butlast vectors) = ?n" using assms(2) by simp
  have "list_all2 (\<lambda>x y. ?f x = Inr y) (butlast vectors) scores"
    unfolding list_all2_conv_all_nth
  proof (intro conjI allI impI)
    show "length (butlast vectors) = length scores" using lb assms(3) by simp
  next
    fix i assume "i < length (butlast vectors)"
    then have i: "i < ?n" using lb by simp
    then have "butlast vectors ! i = vectors ! i" using lb by (simp add: nth_butlast)
    with assms(4) i show "?f (butlast vectors ! i) = Inr (scores ! i)" by simp
  qed
  then have col: "collect ?f (butlast vectors) = Inr scores" by (rule collect_Inr_I)
  let ?scored = "sorted_desc (map (\<lambda>i. (i, ?g i)) [0..<?n])"
  let ?idxs = "map fst ?scored"
  let ?k = "nat (min top_k (int ?n))"
  have sc: "zip [0..<length scores] scores = map (\<lambda>i. (i, ?g i)) [0..<?n]"
    using zip_enumerate [of scores] assms(3) by simp
  have ls: "length ?scored = ?n" by (simp add: length_sorted_desc)
  have sl: "py_slice_to ?scored (min top_k (int (length ?scored))) = take ?k ?scored"
    using assms(6) ls by (simp add: py_slice_to_def py_index_def min_def)
  have sel: "map (\<lambda>(idx, _). chunks ! idx) (take ?k ?scored) = map (\<lambda>i. chunks ! i) (take ?k ?idxs)"
    by (simp add: take_map case_prod_unfold)
  have rank: "rank_chunks (arith env) chunks vectors top_k
     = Inr (if map (\<lambda>i. chunks ! i) (take ?k ?idxs) \<noteq> [] then map (\<lambda>i. chunks ! i) (take ?k ?idxs)
            else chunks)"
    unfolding rank_chunks_def col
    by (simp only: sum.case Let_def sc sl sel)
  have empty: "map (\<lambda>i. chunks ! i) (take ?k ?idxs) = [] \<Longrightarrow> chunks = []"
  proof -
    assume "map (\<lambda>i. chunks ! i) (take ?k ?idxs) = []"
    then have "take ?k ?idxs = []" by simp
    then have "?k = 0 \<or> ?idxs = []" by (simp add: take_eq_Nil)
    with assms(6) ls show "chunks = []" by (auto simp: min_def split: if_splits)
  qed
  have res: "fst (vector_retrieve_relevant_chunks env chunks query top_k w)
             = map (\<lambda>i. chunks ! i) (take ?k ?idxs)"
  proof -
    obtain r w' where e: "embed_texts env w (chunks @ [query]) = (r, w')"
      by (cases "embed_texts env w (chunks @ [query])")
    with assms(1) have r: "r = Inr vectors" by simp
    let ?sel = "map (\<lambda>i. chunks ! i) (take ?k ?idxs)"
    have v: "vector_retrieve_relevant_chunks env chunks query top_k w
             = ((if ?sel \<noteq> [] then ?sel else chunks), w')"
      by (simp only: vector_retrieve_relevant_chunks_def e r prod.case sum.case assms(2) rank
            simp_thms if_False)
    show ?thesis
    proof (cases "?sel = []")
      case True
      with empty have "chunks = []" by blast
      with True v show ?thesis by simp
    next
      case False
      with v show ?thesis by simp
    qed
  qed
  have nan: "\<forall>i < ?n. ?g i \<noteq> NaN"
    using assms(3,5) by (metis nth_mem)
  from ranking_of_scores [of ?n ?g, OF nan]
  have d: "distinct ?idxs" and s: "set ?idxs = {0..<?n}"
    and so: "sorted_wrt (\<lambda>i j. float_less (?g j) (?g i) \<or> (?g i = ?g j \<and> i < j)) ?idxs"
    by blast+
  with res show ?thesis by blast
qed

theorem retrieval_ranked_witness:
  "fst (embed_texts four_vectors_env [] ([''a'', ''b'', ''c''] @ [''q'']))
     = Inr [JArr [JNum 1, JNum 0], JArr [JNum 0, JNum 1], JArr [JNum 1, JNum 0], JArr [JNum 1, JNum 0]] \<and>
   length [JArr [JNum 1, JNum 0], JArr [JNum 0, JNum 1], JArr [JNum 1, JNum 0], JArr [JNum 1, JNum 0]]
     = length ([''a'', ''b'', ''c''] @ [''q'']) \<and>
   similarity (arith four_vectors_env) (JArr [JNum 1, JNum 0]) (JArr [JNum 1, JNum 0]) = Inr (Finite 1) \<and>
   similarity (arith four_vectors_env) (JArr [JNum 0, JNum 1]) (JArr [JNum 1, JNum 0]) = Inr (Finite 0) \<and>
   NaN \<notin> set [Finite 1, Finite 0, Finite 1] \<and>
   (1 :: int) \<le> 6 \<and>
   (\<exists>idxs.
      fst (vector_retrieve_relevant_chunks four_vectors_env [''a'', ''b'', ''c''] ''q'' 6 [])
        = map (\<lambda>i. [''a'', ''b'', ''c''] ! i)
            (take (nat (min 6 (int (length [''a'', ''b'', ''c''])))) idxs) \<and>
      distinct idxs \<and> set idxs = {0..<length [''a'', ''b'', ''c'']} \<and>
      sorted_wrt (\<lambda>i j. float_less ([Finite 1, Finite 0, Finite 1] ! j) ([Finite 1, Finite 0, Finite 1] ! i) \<or>
                          ([Finite 1, Finite 0, Finite 1] ! i = [Finite 1, Finite 0, Finite 1] ! j \<and> i < j)) idxs) \<and>
   fst (vector_retrieve_relevant_chunks four_vectors_env [''a'', ''b'', ''c''] ''q'' 6 [])
     = [''a'', ''c'', ''b''] \<and>
   fst (embed_texts parallel_vectors_env [] ([''a'', ''b''] @ [''q'']))
     = Inr [JArr [JNum 1, JNum 1], JArr [JNum 3, JNum 3], JArr [JNum 1, JNum 1]] \<and>
   similarity (arith parallel_vectors_env) (JArr [JNum 1, JNum 1]) (JArr [JNum 1, JNum 1])
     = Inr (Finite (4503599627370495 / 4503599627370496)) \<and>
   similarity (arith parallel_vectors_env) (JArr [JNum 3, JNum 3]) (JArr [JNum 1, JNum 1])
     = Inr (Finite 1) \<and>
   (\<exists>idxs.
      fst (vector_retrieve_relevant_chunks parallel_vectors_env [''a'', ''b''] ''q'' 6 [])
        = map (\<lambda>i. [''a'', ''b''] ! i) (take (nat (min 6 (int (length [''a'', ''b''])))) idxs) \<and>
      distinct idxs \<and> set idxs = {0..<length [''a'', ''b'']} \<and>
      sorted_wrt (\<lambda>i j. float_less ([Finite (4503599627370495 / 4503599627370496), Finite 1] ! j)
                                     ([Finite (4503599627370495 / 4503599627370496), Finite 1] ! i) \<or>
                          ([Finite (4503599627370495 / 4503599627370496), Finite 1] ! i
                             = [Finite (4503599627370495 / 4503599627370496), Finite 1] ! j \<and> i < j)) idxs) \<and>
   fst (vector_retrieve_relevant_chunks parallel_vectors_env [''a'', ''b''] ''q'' 6 [])
     = [''b'', ''a'']"
proof -
  let ?V = "[JArr [JNum 1, JNum 0], JArr [JNum 0, JNum 1], JArr [JNum 1, JNum 0], JArr [JNum 1, JNum 0]]"
  let ?S = "[Finite 1, Finite 0, Finite 1]"
  let ?W = "[JArr [JNum 1, JNum 1], JArr [JNum 3, JNum 3], JArr [JNum 1, JNum 1]]"
  let ?T = "[Finite (4503599627370495 / 4503599627370496), Finite 1]"
  note a4 = arith_four_vectors_env
  note ap = arith_parallel_vectors_env
  have h1: "fst (embed_texts four_vectors_env [] ([''a'', ''b'', ''c''] @ [''q''])) = Inr ?V"
    by (simp add: embed_four [simplified])
  have h2: "length ?V = length ([''a'', ''b'', ''c''] @ [''q''])" by simp
  have h3: "length ?S = length [''a'', ''b'', ''c'']" by simp
  have s1: "similarity (arith four_vectors_env) (JArr [JNum 1, JNum 0]) (JArr [JNum 1, JNum 0]) = Inr (Finite 1)"
    by (simp only: a4 similarity_10_10)
  have s2: "similarity (arith four_vectors_env) (JArr [JNum 0, JNum 1]) (JArr [JNum 1, JNum 0]) = Inr (Finite 0)"
    by (simp only: a4 similarity_01_10)
  have h4: "\<forall>i < length [''a'', ''b'', ''c''].
              similarity (arith four_vectors_env) (?V ! i) (last ?V) = Inr (?S ! i)"
  proof (intro allI impI)
    fix i :: nat
    assume "i < length [''a'', ''b'', ''c'']"
    then have "i = 0 \<or> i = 1 \<or> i = 2" by auto
    then show "similarity (arith four_vectors_env) (?V ! i) (last ?V) = Inr (?S ! i)"
      using s1 s2 by auto
  qed
  have h5: "NaN \<notin> set ?S" by simp
  have h6: "(1 :: int) \<le> 6" by simp
  note A = retrieval_ranked [OF h1 h2 h3 h4 h5 h6]
  have B: "fst (vector_retrieve_relevant_chunks four_vectors_env [''a'', ''b'', ''c''] ''q'' 6 [])
     = [''a'', ''c'', ''b'']"
    by (simp add: vector_retrieve_relevant_chunks_def embed_four [simplified] a4 rank_four)
  have k1: "fst (embed_texts parallel_vectors_env [] ([''a'', ''b''] @ [''q''])) = Inr ?W"
    by (simp add: embed_parallel [simplified])
  have k2: "length ?W = length ([''a'', ''b''] @ [''q''])" by simp
  have k3: "length ?T = length [''a'', ''b'']" by simp
  have t1: "similarity (arith parallel_vectors_env) (JArr [JNum 1, JNum 1]) (JArr [JNum 1, JNum 1])
     = Inr (Finite (4503599627370495 / 4503599627370496))"
    by (simp only: ap similarity_11_11)
  have t2: "similarity (arith parallel_vectors_env) (JArr [JNum 3, JNum 3]) (JArr [JNum 1, JNum 1])
     = Inr (Finite 1)"
    by (simp only: ap similarity_33_11)
  have k4: "\<forall>i < length [''a'', ''b''].
              similarity (arith parallel_vectors_env) (?W ! i) (last ?W) = Inr (?T ! i)"
  proof (intro allI impI)
    fix i :: nat
    assume "i < length [''a'', ''b'']"
    then have "i = 0 \<or> i = 1" by auto
    then show "similarity (arith parallel_vectors_env) (?W ! i) (last ?W) = Inr (?T ! i)"
      using t1 t2 by auto
  qed
  have k5: "NaN \<notin> set ?T" by simp
  note C = retrieval_ranked [OF k1 k2 k3 k4 k5 h6]
  have D: "fst (vector_retrieve_relevant_chunks parallel_vectors_env [''a'', ''b''] ''q'' 6 [])
     = [''b'', ''a'']"
    by (simp add: vector_retrieve_relevant_chunks_def embed_parallel [simplified] ap rank_parallel)
  from h1 h2 s1 s2 h5 h6 A B k1 t1 t2 C D show ?thesis by blast
qed

section \<open>The chunk summaries\<close>

text \<open>
  C8. When \<open>_create_chunk_summaries\<close> returns, it returns one \<open>ChunkSummary\<close> for each chunk,
  in the order of the chunks, with the indices \<open>1, 2, ..., number of chunks\<close>. With
  \<open>per_chunk = ceil(number of findings / number of chunks)\<close> it has made one summary request
  for each chunk, in order, and the request of chunk \<open>k\<close> (counted from 0) carries the
  findings at the positions from \<open>k * per_chunk\<close> up to, and without,
  \<open>min ((k + 1) * per_chunk) (number of findings)\<close>. When \<open>analyze_contract\<close> returns a report,
  the \<open>chunkSummaries\<close> of the report are such a list, as long as the list of chunks that
  \<open>chunk_text\<close> made of the document.
\<close>

theorem chunk_summaries_one_per_chunk:
  "(create_chunk_summaries env chunks clauses role w = (Inr summaries, w') \<longrightarrow>
      length summaries = length chunks \<and>
      map chunkIndex summaries = map (\<lambda>k. int k + 1) [0..<length chunks] \<and>
      (chunks \<noteq> [] \<longrightarrow> per_chunk_of (length clauses) (length chunks)
                         = \<lceil>real (length clauses) / real (length chunks)\<rceil>) \<and>
      (\<exists>ctxs. length ctxs = length chunks \<and>
         w' = w @ map (\<lambda>k. ChatCall (SummarizePrompt role (int k + 1)
                               (py_slice_to (chunks ! k) 500) (ctxs ! k))) [0..<length chunks] \<and>
         (\<forall>k < length chunks.
            collect summary_line
              (map (\<lambda>j. clauses ! j)
                 [k * nat (per_chunk_of (length clauses) (length chunks))
                  ..<min ((k + 1) * nat (per_chunk_of (length clauses) (length chunks)))
                       (length clauses)])
            = Inr (ctxs ! k)))) \<and>
   (analyze_contract env document_text role w0 = Some (Inr report, w1) \<longrightarrow>
      (\<exists>cs summaries.
         chunk_text (convert_pdf_to_markdown document_text) 4000 300 = Some (Inr cs) \<and>
         map_of report ''chunkSummaries'' = Some (JArr (map summary_json summaries)) \<and>
         length summaries = length cs \<and>
         map chunkIndex summaries = map (\<lambda>k. int k + 1) [0..<length cs]))"
proof (intro conjI impI)
  assume a: "create_chunk_summaries env chunks clauses role w = (Inr summaries, w')"
  from create_chunk_summaries_shape [OF a]
  show "length summaries = length chunks"
    and "map chunkIndex summaries = map (\<lambda>k. int k + 1) [0..<length chunks]"
    and "\<exists>ctxs. length ctxs = length chunks \<and>
         w' = w @ map (\<lambda>k. ChatCall (SummarizePrompt role (int k + 1)
                               (py_slice_to (chunks ! k) 500) (ctxs ! k))) [0..<length chunks] \<and>
         (\<forall>k < length chunks.
            collect summary_line
              (map (\<lambda>j. clauses ! j)
                 [k * nat (per_chunk_of (length clauses) (length chunks))
                  ..<min ((k + 1) * nat (per_chunk_of (length clauses) (length chunks)))
                       (length clauses)])
            = Inr (ctxs ! k))"
    by blast+
next
  assume "chunks \<noteq> []"
  then show "per_chunk_of (length clauses) (length chunks)
             = \<lceil>real (length clauses) / real (length chunks)\<rceil>"
    by (simp add: per_chunk_of_def)
next
  assume a: "analyze_contract env document_text role w0 = Some (Inr report, w1)"
  obtain cs where cs: "chunk_text (convert_pdf_to_markdown document_text) 4000 300 = Some (Inr cs)"
    using chunk_text_default_returns by blast
  from a cs obtain results wa where g: "gather_analyze env cs role w0 = (Inr results, wa)"
    by (cases "gather_analyze env cs role w0")
       (auto simp: analyze_contract_def split: sum.splits)
  from a cs g obtain all_clauses where x: "extend_all results = Inr all_clauses"
    by (auto simp: analyze_contract_def split: sum.splits)
  from a cs g x have ne: "all_clauses \<noteq> []"
    by (auto simp: analyze_contract_def split: if_splits)
  from a cs g x ne obtain summaries wb where
    s: "create_chunk_summaries env cs all_clauses role wa = (Inr summaries, wb)"
    by (cases "create_chunk_summaries env cs all_clauses role wa")
       (auto simp: analyze_contract_def split: sum.splits)
  from a cs g x ne s obtain final wc where
    f: "synthesize_report env all_clauses role wb = (Inr final, wc)"
    by (cases "synthesize_report env all_clauses role wb")
       (auto simp: analyze_contract_def split: sum.splits)
  from a cs g x ne s f have m: "merge_report final all_clauses summaries = Inr report"
    by (simp add: analyze_contract_def)
  then have "map_of report ''chunkSummaries'' = Some (JArr (map summary_json summaries))"
    by (auto simp: merge_report_def map_of_dict_set split: json.splits)
  moreover from create_chunk_summaries_shape [OF s]
  have "length summaries = length cs"
    and "map chunkIndex summaries = map (\<lambda>k. int k + 1) [0..<length cs]" by blast+
  ultimately show "\<exists>cs summaries.
         chunk_text (convert_pdf_to_markdown document_text) 4000 300 = Some (Inr cs) \<and>
         map_of report ''chunkSummaries'' = Some (JArr (map summary_json summaries)) \<and>
         length summaries = length cs \<and>
         map chunkIndex summaries = map (\<lambda>k. int k + 1) [0..<length cs]"
    using cs by blast
qed

theorem chunk_summaries_one_per_chunk_witness:
  "create_chunk_summaries lease_env [''one'', ''two''] [rent_clause, rent_clause, rent_clause] ''tenant'' []
   = (Inr [\<lparr>chunkIndex = 1, summary = ''About rent.''\<rparr>, \<lparr>chunkIndex = 2, summary = ''About rent.''\<rparr>],
      [ChatCall (SummarizePrompt ''tenant'' 1 ''one''
         [(JStr ''Pay rent.'', JStr ''Low''), (JStr ''Pay rent.'', JStr ''Low'')]),
       ChatCall (SummarizePrompt ''tenant'' 2 ''two'' [(JStr ''Pay rent.'', JStr ''Low'')])]) \<and>
   per_chunk_of (length [rent_clause, rent_clause, rent_clause]) (length [''one'', ''two'']) = \<lceil>3 / 2 :: real\<rceil> \<and>
   analyze_contract lease_env ''Hello.'' ''tenant'' []
   = Some (Inr [(''summary'', JStr ''A lease.''),
                (''chunkSummaries'', JArr [summary_json \<lparr>chunkIndex = 1, summary = ''About rent.''\<rparr>]),
                (''clauses'', JArr [rent_clause])],
           [ChatCall (AnalyzeChunkPrompt ''tenant'' ''# Hello.''),
            ChatCall (SummarizePrompt ''tenant'' 1 ''# Hello.'' [(JStr ''Pay rent.'', JStr ''Low'')]),
            ChatCall (SynthesizePrompt ''tenant'' [(JStr ''Pay rent.'', JStr [], JStr ''Low'', JStr [])])]) \<and>
   (\<exists>summaries.
      map_of [(''summary'', JStr ''A lease.''),
              (''chunkSummaries'', JArr [summary_json \<lparr>chunkIndex = 1, summary = ''About rent.''\<rparr>]),
              (''clauses'', JArr [rent_clause])] ''chunkSummaries''
        = Some (JArr (map summary_json summaries)) \<and>
      length summaries = 1 \<and> map chunkIndex summaries = [1])"
proof -
  have c: "chunk_text (convert_pdf_to_markdown ''Hello.'') 4000 300 = Some (Inr [''# Hello.''])"
    by code_simp
  note t = chunk_summaries_one_per_chunk [of lease_env "[''one'', ''two'']"
      "[rent_clause, rent_clause, rent_clause]" "''tenant''" "[]"
      "[\<lparr>chunkIndex = 1, summary = ''About rent.''\<rparr>, \<lparr>chunkIndex = 2, summary = ''About rent.''\<rparr>]"
      "[ChatCall (SummarizePrompt ''tenant'' 1 ''one''
         [(JStr ''Pay rent.'', JStr ''Low''), (JStr ''Pay rent.'', JStr ''Low'')]),
       ChatCall (SummarizePrompt ''tenant'' 2 ''two'' [(JStr ''Pay rent.'', JStr ''Low'')])]"
      "''Hello.''" "[]"
      "[(''summary'', JStr ''A lease.''),
        (''chunkSummaries'', JArr [summary_json \<lparr>chunkIndex = 1, summary = ''About rent.''\<rparr>]),
        (''clauses'', JArr [rent_clause])]"
      "[ChatCall (AnalyzeChunkPrompt ''tenant'' ''# Hello.''),
        ChatCall (SummarizePrompt ''tenant'' 1 ''# Hello.'' [(JStr ''Pay rent.'', JStr ''Low'')]),
        ChatCall (SynthesizePrompt ''tenant'' [(JStr ''Pay rent.'', JStr [], JStr ''Low'', JStr [])])]"]
  from t lease_summaries_two
  have p: "per_chunk_of (length [rent_clause, rent_clause, rent_clause]) (length [''one'', ''two''])
           = \<lceil>real (length [rent_clause, rent_clause, rent_clause]) / real (length [''one'', ''two''])\<rceil>"
    by blast
  from t lease_analyze_hello c
  have e: "\<exists>summaries.
      map_of [(''summary'', JStr ''A lease.''),
              (''chunkSummaries'', JArr [summary_json \<lparr>chunkIndex = 1, summary = ''About rent.''\<rparr>]),
              (''clauses'', JArr [rent_clause])] ''chunkSummaries''
        = Some (JArr (map summary_json summaries)) \<and>
      length summaries = 1 \<and> map chunkIndex summaries = [1]"
    by auto
  from p have p': "per_chunk_of (length [rent_clause, rent_clause, rent_clause]) (length [''one'', ''two''])
                   = \<lceil>3 / 2 :: real\<rceil>" by simp
  from lease_summaries_two p' lease_analyze_hello e show ?thesis by blast
qed

end
